theory Spec2Isabelle
  imports Main "HOL-Library.Sublist"
begin

section \<open>Python text\<close>

text \<open>
  A Python \<^verbatim>\<open>str\<close> is a sequence of Unicode code points, and \<^verbatim>\<open>len\<close> counts code
  points; a text is therefore a list of code points. The literals of \<^verbatim>\<open>app.py\<close> are
  written with their ASCII runs as Isabelle strings and every other character as its code
  point (\<^verbatim>\<open>U+26A0 U+FE0F\<close> is the warning sign that opens most messages).
\<close>

type_synonym pystr = "nat list"

definition text_of :: "string \<Rightarrow> pystr" where
  "text_of cs = map of_char cs"

definition WARN :: pystr where
  "WARN = [9888, 65039]"

text \<open>The characters for which \<^verbatim>\<open>str.isspace\<close> holds: what \<^verbatim>\<open>strip()\<close> and \<^verbatim>\<open>split()\<close> remove.\<close>

definition isspace :: "nat \<Rightarrow> bool" where
  "isspace c \<longleftrightarrow>
     (9 \<le> c \<and> c \<le> 13) \<or> (28 \<le> c \<and> c \<le> 32) \<or> c = 133 \<or> c = 160 \<or> c = 5760 \<or>
     (8192 \<le> c \<and> c \<le> 8202) \<or> c = 8232 \<or> c = 8233 \<or> c = 8239 \<or> c = 8287 \<or> c = 12288"

definition strip :: "pystr \<Rightarrow> pystr" where
  "strip s = rev (dropWhile isspace (rev (dropWhile isspace s)))"

text \<open>\<^verbatim>\<open>s.split()\<close>: the maximal runs of non-space characters, in order.\<close>

fun split_from :: "pystr \<Rightarrow> pystr \<Rightarrow> pystr list" where
  "split_from word [] = (if word = [] then [] else [word])"
| "split_from word (c # cs) =
     (if isspace c then (if word = [] then split_from [] cs else word # split_from [] cs)
      else split_from (word @ [c]) cs)"

definition split :: "pystr \<Rightarrow> pystr list" where
  "split s = split_from [] s"

text \<open>\<^verbatim>\<open>sep.join(words)\<close>.\<close>

fun join :: "pystr \<Rightarrow> pystr list \<Rightarrow> pystr" where
  "join sep [] = []"
| "join sep [w] = w"
| "join sep (w # ws) = w @ sep @ join sep ws"

text \<open>\<^verbatim>\<open>str(n)\<close> for a non-negative integer: its decimal digits.\<close>

fun str_nat :: "nat \<Rightarrow> pystr" where
  "str_nat n = (if n < 10 then [48 + n] else str_nat (n div 10) @ [48 + n mod 10])"

declare str_nat.simps [simp del]

text \<open>
  \<^verbatim>\<open>data.encode()\<close> is UTF-8 in strict mode: it raises \<^verbatim>\<open>UnicodeEncodeError\<close> exactly when
  the text holds a surrogate code point (\<^verbatim>\<open>U+D800\<close> to \<^verbatim>\<open>U+DFFF\<close>), which a Python text may
  (the JSON decoder produces one from an unpaired escape). Binding a text as an SQL
  parameter encodes it the same way.
\<close>

definition utf8_ok :: "pystr \<Rightarrow> bool" where
  "utf8_ok s = list_all (\<lambda>c. \<not> (55296 \<le> c \<and> c \<le> 57343)) s"

section \<open>Configuration\<close>

definition MAX_HISTORY_TOKENS :: int where "MAX_HISTORY_TOKENS = 800"
definition MAX_INPUT_LENGTH :: nat where "MAX_INPUT_LENGTH = 512"
definition CACHE_EXPIRY :: int where "CACHE_EXPIRY = 3600"
definition MAX_RETRIES :: nat where "MAX_RETRIES = 3"
definition MAX_CONVERSATION_TURNS :: nat where "MAX_CONVERSATION_TURNS = 10"

section \<open>TokenManager\<close>

definition estimate_tokens :: "pystr \<Rightarrow> int" where
  "estimate_tokens text = int (length text) div 4"

text \<open>
  The \<^verbatim>\<open>while\<close> loop of \<^verbatim>\<open>truncate_history\<close>: as long as the running total is over the
  budget and both lists are non-empty, pop the oldest input and the oldest response and
  subtract their estimates.
\<close>

fun drop_oldest :: "int \<Rightarrow> int \<Rightarrow> pystr list \<Rightarrow> pystr list \<Rightarrow> pystr list \<times> pystr list" where
  "drop_oldest total_tokens max_tokens (oldest_input # inputs) (oldest_response # responses) =
     (if total_tokens > max_tokens
      then drop_oldest (total_tokens - (estimate_tokens oldest_input + estimate_tokens oldest_response))
             max_tokens inputs responses
      else (oldest_input # inputs, oldest_response # responses))"
| "drop_oldest total_tokens max_tokens inputs responses = (inputs, responses)"

definition truncate_history :: "pystr list \<Rightarrow> pystr list \<Rightarrow> int \<Rightarrow> pystr list \<times> pystr list" where
  "truncate_history past_inputs past_responses max_tokens =
     (if length past_inputs > MAX_CONVERSATION_TURNS then
        (let start_idx = length past_inputs - MAX_CONVERSATION_TURNS
         in (drop start_idx past_inputs, drop start_idx past_responses))
      else
        (let total_tokens = sum_list (map estimate_tokens (past_inputs @ past_responses))
         in if total_tokens \<le> max_tokens then (past_inputs, past_responses)
            else drop_oldest total_tokens max_tokens past_inputs past_responses))"

text \<open>
  \<^verbatim>\<open>truncate_text\<close>. The program only ever calls it with the default
  \<^verbatim>\<open>max_length = MAX_INPUT_LENGTH\<close>, so the bound is a natural number here.
\<close>

definition truncate_text :: "pystr \<Rightarrow> nat \<Rightarrow> pystr" where
  "truncate_text text max_length = (if length text \<le> max_length then text else take max_length text)"

section \<open>Messages returned to the user\<close>

definition MSG_BAD_REQUEST :: pystr where
  "MSG_BAD_REQUEST = WARN @ text_of '' Erro na requisi'' @ [231, 227] @ text_of ''o: formato inv'' @ [225] @ text_of ''lido. Tente uma mensagem mais curta.''"

definition MSG_FALLBACK :: pystr where
  "MSG_FALLBACK = text_of ''Desculpe, n'' @ [227] @ text_of ''o consegui gerar uma resposta adequada. Poderia reformular?''"

definition MSG_SERVER_ERROR :: pystr where
  "MSG_SERVER_ERROR = WARN @ text_of '' Erro no servidor da API. Tente novamente mais tarde.''"

definition MSG_HTTP_ERROR_PREFIX :: pystr where
  "MSG_HTTP_ERROR_PREFIX = WARN @ text_of '' Erro na requisi'' @ [231, 227] @ text_of ''o: ''"

definition MSG_TIMEOUT :: pystr where
  "MSG_TIMEOUT = WARN @ text_of '' Tempo esgotado ao aguardar resposta da API.''"

definition MSG_CONNECTION :: pystr where
  "MSG_CONNECTION = WARN @ text_of '' Erro de conex'' @ [227] @ text_of ''o com a API.''"

definition MSG_INVALID_JSON :: pystr where
  "MSG_INVALID_JSON = WARN @ text_of '' Resposta inv'' @ [225] @ text_of ''lida da API.''"

definition MSG_UNKNOWN_PREFIX :: pystr where
  "MSG_UNKNOWN_PREFIX = WARN @ text_of '' Ocorreu um erro: ''"

definition MSG_NO_RESPONSE :: pystr where
  "MSG_NO_RESPONSE = WARN @ text_of '' N'' @ [227] @ text_of ''o foi poss'' @ [237] @ text_of ''vel obter uma resposta ap'' @ [243] @ text_of ''s v'' @ [225] @ text_of ''rias tentativas.''"

definition MSG_API_ERROR_PREFIX :: pystr where
  "MSG_API_ERROR_PREFIX = WARN @ text_of '' Erro da API: ''"

definition MSG_UNEXPECTED_FORMAT :: pystr where
  "MSG_UNEXPECTED_FORMAT = WARN @ text_of '' Formato de resposta inesperado da API.''"

definition MSG_INVALID_INPUT :: pystr where
  "MSG_INVALID_INPUT = WARN @ text_of '' Por favor, digite uma mensagem v'' @ [225] @ text_of ''lida.''"

section \<open>Decoded response bodies and \<^verbatim>\<open>_extract_response\<close>\<close>

text \<open>
  What \<^verbatim>\<open>response.json()\<close> returns. Numbers are opaque (type \<open>'n\<close>): the program only
  ever asks whether a value is a text, a dict or a list. A dict is the list of its items in
  iteration order, with distinct keys.
\<close>

datatype 'n json =
    JNull
  | JBool bool
  | JNum 'n
  | JStr pystr
  | JArr "'n json list"
  | JObj "(pystr \<times> 'n json) list"

text \<open>
  The exception classes the program tells apart. \<open>HTTPError\<close> carries
  \<^verbatim>\<open>e.response.status_code\<close>; \<open>Timeout\<close> is \<^verbatim>\<open>requests.exceptions.Timeout\<close>;
  \<open>RequestException\<close> is any other \<^verbatim>\<open>requests.exceptions.RequestException\<close>;
  \<open>JSONDecodeError\<close> is a \<^verbatim>\<open>json.JSONDecodeError\<close> that is not also a
  \<^verbatim>\<open>RequestException\<close>; \<open>OtherException\<close> is an exception of any other class, with a
  description that tells it from the others.
\<close>

datatype py_exn =
    HTTPError nat
  | Timeout
  | RequestException
  | JSONDecodeError
  | AttributeError
  | UnicodeEncodeError
  | OtherException pystr

definition GENERATED_TEXT :: pystr where
  "GENERATED_TEXT = text_of ''generated_text''"

definition ERROR_FIELD :: pystr where
  "ERROR_FIELD = text_of ''error''"

text \<open>\<^verbatim>\<open>value.strip()\<close>: only a text has the method.\<close>

definition strip_value :: "'n json \<Rightarrow> py_exn + pystr" where
  "strip_value v = (case v of JStr s \<Rightarrow> Inr (strip s) | _ \<Rightarrow> Inl AttributeError)"

text \<open>
  \<^verbatim>\<open>f"{value}"\<close>: a text formats as itself; for any other value the result is Python's
  \<^verbatim>\<open>str(value)\<close>, taken as the parameter \<open>py_str\<close>.
\<close>

definition format_value :: "('n json \<Rightarrow> pystr) \<Rightarrow> 'n json \<Rightarrow> pystr" where
  "format_value py_str v = (case v of JStr s \<Rightarrow> s | _ \<Rightarrow> py_str v)"

text \<open>
  The loop \<^verbatim>\<open>for key, value in d.items()\<close> of the fallback scan: the first value that is a
  text longer than 5 characters, stripped.
\<close>

fun scan_items :: "(pystr \<times> 'n json) list \<Rightarrow> pystr option" where
  "scan_items [] = None"
| "scan_items ((key, v) # rest) =
     (case v of
        JStr s \<Rightarrow> if length s > 5 then Some (strip s) else scan_items rest
      | _ \<Rightarrow> scan_items rest)"

text \<open>
  The body of the \<^verbatim>\<open>try\<close> block, one definition per \<^verbatim>\<open>if\<close> of the source. A step gives
  \<open>None\<close> when control falls through to the next statement, and \<open>Some\<close> of what is
  returned or raised otherwise.
\<close>

definition from_dict :: "('n json \<Rightarrow> pystr) \<Rightarrow> 'n json \<Rightarrow> (py_exn + pystr) option" where
  "from_dict py_str data =
     (case data of
        JObj items \<Rightarrow>
          (case map_of items GENERATED_TEXT of
             Some v \<Rightarrow> Some (strip_value v)
           | None \<Rightarrow>
               (case map_of items ERROR_FIELD of
                  Some e \<Rightarrow> Some (Inr (MSG_API_ERROR_PREFIX @ format_value py_str e))
                | None \<Rightarrow> None))
      | _ \<Rightarrow> None)"

definition from_list :: "'n json \<Rightarrow> (py_exn + pystr) option" where
  "from_list data =
     (case data of
        JArr (JObj items # rest) \<Rightarrow>
          (case map_of items GENERATED_TEXT of
             Some v \<Rightarrow> Some (strip_value v)
           | None \<Rightarrow> None)
      | _ \<Rightarrow> None)"

definition scan_dict :: "'n json \<Rightarrow> pystr option" where
  "scan_dict data = (case data of JObj items \<Rightarrow> scan_items items | _ \<Rightarrow> None)"

definition scan_list :: "'n json \<Rightarrow> pystr option" where
  "scan_list data = (case data of JArr (JObj items # rest) \<Rightarrow> scan_items items | _ \<Rightarrow> None)"

definition extract_try :: "('n json \<Rightarrow> pystr) \<Rightarrow> 'n json \<Rightarrow> py_exn + pystr option" where
  "extract_try py_str data =
     (case from_dict py_str data of
        Some (Inl e) \<Rightarrow> Inl e
      | Some (Inr t) \<Rightarrow> Inr (Some t)
      | None \<Rightarrow>
          (case from_list data of
             Some (Inl e) \<Rightarrow> Inl e
           | Some (Inr t) \<Rightarrow> Inr (Some t)
           | None \<Rightarrow>
               (case scan_dict data of
                  Some t \<Rightarrow> Inr (Some t)
                | None \<Rightarrow> Inr (scan_list data))))"

text \<open>
  \<^verbatim>\<open>_extract_response\<close>: the \<^verbatim>\<open>try\<close> block under \<^verbatim>\<open>except Exception\<close>, which logs and falls
  to the final \<^verbatim>\<open>return\<close>. The result is \<open>Inr\<close> of the returned text; \<open>Inl\<close> would be an
  exception leaving the method.
\<close>

definition extract_response :: "('n json \<Rightarrow> pystr) \<Rightarrow> 'n json \<Rightarrow> py_exn + pystr" where
  "extract_response py_str data =
     (case extract_try py_str data of
        Inr (Some t) \<Rightarrow> Inr t
      | Inr None \<Rightarrow> Inr MSG_UNEXPECTED_FORMAT
      | Inl e \<Rightarrow> Inr MSG_UNEXPECTED_FORMAT)"

section \<open>APICache\<close>

text \<open>
  The table \<^verbatim>\<open>cache (query_hash PRIMARY KEY, response, timestamp)\<close> is a map from the hash
  to the rest of the row. The digest \<^verbatim>\<open>hashlib.md5(...).hexdigest()\<close> of the encoded text is
  the parameter \<open>md5\<close>; the current time \<^verbatim>\<open>int(time.time())\<close> is the argument
  \<open>current_time\<close>. The database itself is taken to work: the only failures modelled are
  those the arguments cause.
\<close>

type_synonym cache_db = "pystr \<rightharpoonup> pystr \<times> int"

definition compute_hash :: "(pystr \<Rightarrow> pystr) \<Rightarrow> pystr \<Rightarrow> py_exn + pystr" where
  "compute_hash md5 data = (if utf8_ok data then Inr (md5 data) else Inl UnicodeEncodeError)"

text \<open>
  \<^verbatim>\<open>get_cached_response\<close> only reads: the database comes back as it was. An exception in
  the \<^verbatim>\<open>try\<close> block is logged and the method returns \<^verbatim>\<open>None\<close>.
\<close>

definition get_cached_response ::
  "(pystr \<Rightarrow> pystr) \<Rightarrow> cache_db \<Rightarrow> int \<Rightarrow> pystr \<Rightarrow> pystr option \<times> cache_db" where
  "get_cached_response md5 db current_time query_text =
     (case compute_hash md5 query_text of
        Inl e \<Rightarrow> (None, db)
      | Inr query_hash \<Rightarrow>
          (case db query_hash of
             Some (response, timestamp) \<Rightarrow>
               if current_time - timestamp < CACHE_EXPIRY then (Some response, db) else (None, db)
           | None \<Rightarrow> (None, db)))"

text \<open>
  \<^verbatim>\<open>cache_response\<close>: \<^verbatim>\<open>INSERT OR REPLACE\<close>. An exception (the hash, or binding the
  response) is logged and nothing is written.
\<close>

definition cache_response ::
  "(pystr \<Rightarrow> pystr) \<Rightarrow> cache_db \<Rightarrow> int \<Rightarrow> pystr \<Rightarrow> pystr \<Rightarrow> cache_db" where
  "cache_response md5 db current_time query_text response =
     (case compute_hash md5 query_text of
        Inl e \<Rightarrow> db
      | Inr query_hash \<Rightarrow>
          if utf8_ok response then db(query_hash \<mapsto> (response, current_time)) else db)"

section \<open>The world around the client\<close>

text \<open>
  What a call can observe and change: the conversation kept in the session, the cache
  table, the clock, and a trace of the calls made to the cache, to the network and to
  \<^verbatim>\<open>time.sleep\<close>, in order.
\<close>

datatype event =
    CacheLookup pystr
  | CacheStore pystr pystr
  | NetRequest pystr
  | Sleep int

record state =
  user_inputs :: "pystr list"
  bot_responses :: "pystr list"
  cache :: cache_db
  clock :: int
  trace :: "event list"

text \<open>
  What \<^verbatim>\<open>requests.post\<close> does: it raises, or it returns a response with a status code and
  a body, on which \<^verbatim>\<open>response.json()\<close> raises or returns the decoded value.
\<close>

datatype 'n reply =
    Failed py_exn
  | Responded nat "py_exn + 'n json"

text \<open>
  The surroundings the program does not define: the digest, Python's \<^verbatim>\<open>str\<close> of a decoded
  value and of an exception, and the endpoint. \<open>post env i inputs\<close> is what the \<open>i\<close>-th
  request ever made (counting from 0) gets when it carries \<open>inputs\<close>: the seconds it took
  and the reply.
\<close>

record 'n env =
  md5 :: "pystr \<Rightarrow> pystr"
  py_str :: "'n json \<Rightarrow> pystr"
  str_exn :: "py_exn \<Rightarrow> pystr"
  post :: "nat \<Rightarrow> pystr \<Rightarrow> int \<times> 'n reply"

fun is_request :: "event \<Rightarrow> bool" where
  "is_request (NetRequest inputs) = True"
| "is_request e = False"

definition requests_made :: "event list \<Rightarrow> nat" where
  "requests_made tr = length (filter is_request tr)"

definition lookup_cache :: "'n env \<Rightarrow> pystr \<Rightarrow> state \<Rightarrow> pystr option \<times> state" where
  "lookup_cache env query_text s =
     (case get_cached_response (md5 env) (cache s) (clock s) query_text of
        (cached, db) \<Rightarrow> (cached, s\<lparr>cache := db, trace := trace s @ [CacheLookup query_text]\<rparr>))"

definition store_cache :: "'n env \<Rightarrow> pystr \<Rightarrow> pystr \<Rightarrow> state \<Rightarrow> state" where
  "store_cache env query_text response s =
     s\<lparr>cache := cache_response (md5 env) (cache s) (clock s) query_text response,
       trace := trace s @ [CacheStore query_text response]\<rparr>"

definition sleep :: "int \<Rightarrow> state \<Rightarrow> state" where
  "sleep seconds s = s\<lparr>clock := clock s + seconds, trace := trace s @ [Sleep seconds]\<rparr>"

definition send :: "'n env \<Rightarrow> pystr \<Rightarrow> state \<Rightarrow> 'n reply \<times> state" where
  "send env inputs s =
     (case post env (requests_made (trace s)) inputs of
        (took, reply) \<Rightarrow> (reply, s\<lparr>clock := clock s + took, trace := trace s @ [NetRequest inputs]\<rparr>))"

section \<open>HuggingFaceClient.query\<close>

text \<open>The salvage after a 400: keep the last 100 words when there are more.\<close>

definition salvage :: "pystr \<Rightarrow> pystr" where
  "salvage prompt =
     (let words = split prompt
      in if length words > 100 then join (text_of '' '') (drop (length words - 100) words)
         else prompt)"

text \<open>How one pass through the \<^verbatim>\<open>try\<close> block ends.\<close>

datatype flow =
    Return pystr
  | Continue pystr
  | Raise py_exn

text \<open>
  The \<^verbatim>\<open>try\<close> block of one attempt. \<open>inputs\<close> is \<^verbatim>\<open>payload["inputs"]\<close>, which is built once
  before the loop; \<open>prompt\<close> is the local variable, which the 400 branch reassigns
  (\<open>Continue\<close> carries its new value). \<^verbatim>\<open>raise_for_status\<close> raises for 400 to 599.
\<close>

definition attempt_try :: "'n env \<Rightarrow> pystr \<Rightarrow> nat \<Rightarrow> pystr \<Rightarrow> state \<Rightarrow> flow \<times> state" where
  "attempt_try env inputs attempt prompt s =
     (case send env inputs s of
        (Failed e, s1) \<Rightarrow> (Raise e, s1)
      | (Responded status_code body, s1) \<Rightarrow>
          if status_code = 400 then
            (if attempt < MAX_RETRIES then (Continue (salvage prompt), s1)
             else (Return MSG_BAD_REQUEST, s1))
          else if 400 \<le> status_code \<and> status_code < 600 then (Raise (HTTPError status_code), s1)
          else
            (case body of
               Inl e \<Rightarrow> (Raise e, s1)
             | Inr data \<Rightarrow>
                 (case extract_response (py_str env) data of
                    Inl e \<Rightarrow> (Raise e, s1)
                  | Inr result \<Rightarrow>
                      if result = [] \<or> length result < 2 then
                        (if attempt < MAX_RETRIES then (Continue prompt, sleep (2 ^ attempt) s1)
                         else (Return MSG_FALLBACK, store_cache env prompt MSG_FALLBACK s1))
                      else (Return result, store_cache env prompt result s1))))"

text \<open>
  The \<^verbatim>\<open>except\<close> clauses, in the order of the source. \<open>Some\<close> is a \<^verbatim>\<open>return\<close>; \<open>None\<close> is
  the end of the clause, after which the loop goes on.
\<close>

definition handle_exn :: "'n env \<Rightarrow> nat \<Rightarrow> py_exn \<Rightarrow> state \<Rightarrow> pystr option \<times> state" where
  "handle_exn env attempt e s =
     (case e of
        HTTPError status_code \<Rightarrow>
          if status_code = 429 then (None, sleep (2 ^ attempt) s)
          else if status_code \<ge> 500 then
            (if attempt < MAX_RETRIES then (None, sleep (2 ^ attempt) s)
             else (Some MSG_SERVER_ERROR, s))
          else (Some (MSG_HTTP_ERROR_PREFIX @ str_nat status_code), s)
      | Timeout \<Rightarrow>
          if attempt < MAX_RETRIES then (None, sleep (2 ^ attempt) s) else (Some MSG_TIMEOUT, s)
      | RequestException \<Rightarrow> (Some MSG_CONNECTION, s)
      | JSONDecodeError \<Rightarrow>
          if attempt < MAX_RETRIES then (None, sleep (2 ^ attempt) s)
          else (Some MSG_INVALID_JSON, s)
      | _ \<Rightarrow> (Some (MSG_UNKNOWN_PREFIX @ str_exn env e), s))"

text \<open>
  The loop \<^verbatim>\<open>for attempt in range(1, MAX_RETRIES + 1)\<close> over the attempts still to make,
  and the \<^verbatim>\<open>return\<close> after it.
\<close>

fun query_loop :: "'n env \<Rightarrow> pystr \<Rightarrow> nat list \<Rightarrow> pystr \<Rightarrow> state \<Rightarrow> pystr \<times> state" where
  "query_loop env inputs [] prompt s = (MSG_NO_RESPONSE, s)"
| "query_loop env inputs (attempt # rest) prompt s =
     (case attempt_try env inputs attempt prompt s of
        (Return result, s1) \<Rightarrow> (result, s1)
      | (Continue prompt1, s1) \<Rightarrow> query_loop env inputs rest prompt1 s1
      | (Raise e, s1) \<Rightarrow>
          (case handle_exn env attempt e s1 of
             (Some message, s2) \<Rightarrow> (message, s2)
           | (None, s2) \<Rightarrow> query_loop env inputs rest prompt s2))"

text \<open>\<^verbatim>\<open>if cached_response:\<close> holds for a text that is not empty.\<close>

definition query :: "'n env \<Rightarrow> pystr \<Rightarrow> state \<Rightarrow> pystr \<times> state" where
  "query env prompt0 s =
     (let prompt = truncate_text prompt0 MAX_INPUT_LENGTH
      in case lookup_cache env prompt s of
           (Some cached_response, s1) \<Rightarrow>
             if cached_response \<noteq> [] then (cached_response, s1)
             else query_loop env prompt [1..<MAX_RETRIES + 1] prompt s1
         | (None, s1) \<Rightarrow> query_loop env prompt [1..<MAX_RETRIES + 1] prompt s1)"

section \<open>ChatSession.add_message\<close>

text \<open>\<^verbatim>\<open>xs[-n:]\<close> for a positive \<open>n\<close>.\<close>

definition last_n :: "nat \<Rightarrow> 'a list \<Rightarrow> 'a list" where
  "last_n n xs = drop (length xs - n) xs"

text \<open>
  The prompt built from the truncated history (the statements from
  \<^verbatim>\<open>if len(truncated_inputs) >= 3\<close> to the assignment of \<^verbatim>\<open>user_query\<close>).
\<close>

definition build_user_query :: "pystr list \<Rightarrow> pystr list \<Rightarrow> pystr \<Rightarrow> pystr" where
  "build_user_query truncated_inputs0 truncated_responses0 user_input =
     (let (truncated_inputs, truncated_responses) =
            (if length truncated_inputs0 \<ge> 3
             then (last_n 3 truncated_inputs0, last_n 3 truncated_responses0)
             else (truncated_inputs0, truncated_responses0))
      in if truncated_inputs \<noteq> [] \<and> truncated_responses \<noteq> [] then
           (let context0 = last truncated_inputs @ text_of '' '' @ last truncated_responses;
                context = (if length context0 > 200 then last_n 200 context0 else context0)
            in context @ text_of '' '' @ user_input)
         else user_input)"

text \<open>
  \<^verbatim>\<open>add_message\<close>. \<^verbatim>\<open>truncate_history\<close> is called without \<^verbatim>\<open>max_tokens\<close>, whose default was
  bound when the method was defined, to the value \<^verbatim>\<open>MAX_HISTORY_TOKENS\<close> had then (800). The \<^verbatim>\<open>try\<close> around \<^verbatim>\<open>query\<close> has no branch
  here: \<^verbatim>\<open>query\<close> handles every exception itself.
\<close>

definition add_message :: "'n env \<Rightarrow> pystr \<Rightarrow> state \<Rightarrow> pystr \<times> state" where
  "add_message env user_input0 s =
     (if user_input0 = [] \<or> length (strip user_input0) = 0 then (MSG_INVALID_INPUT, s)
      else
        (let user_input = (if length user_input0 > MAX_INPUT_LENGTH
                           then take MAX_INPUT_LENGTH user_input0 else user_input0);
             s1 = s\<lparr>user_inputs := user_inputs s @ [user_input]\<rparr>;
             (truncated_inputs, truncated_responses) =
               truncate_history (butlast (user_inputs s1)) (bot_responses s1) MAX_HISTORY_TOKENS;
             user_query = build_user_query truncated_inputs truncated_responses user_input
         in case query env user_query s1 of
              (reply, s2) \<Rightarrow> (reply, s2\<lparr>bot_responses := bot_responses s2 @ [reply]\<rparr>)))"

section \<open>Vocabulary of the properties\<close>

text \<open>
  The top-level fields a fallback scan can look at: those of a dict, or of the first element
  of a list when that element is a dict.
\<close>

fun fields_of :: "'n json \<Rightarrow> (pystr \<times> 'n json) list" where
  "fields_of (JObj items) = items"
| "fields_of (JArr (JObj items # rest)) = items"
| "fields_of data = []"

text \<open>
  The shapes the extraction recognises: a dict with a \<^verbatim>\<open>generated_text\<close> or an \<^verbatim>\<open>error\<close>
  field, or a non-empty list whose first element is a dict with a \<^verbatim>\<open>generated_text\<close> field.
\<close>

fun recognized_shape :: "'n json \<Rightarrow> bool" where
  "recognized_shape (JObj items) =
     (map_of items GENERATED_TEXT \<noteq> None \<or> map_of items ERROR_FIELD \<noteq> None)"
| "recognized_shape (JArr (JObj items # rest)) = (map_of items GENERATED_TEXT \<noteq> None)"
| "recognized_shape data = False"

fun is_long_text :: "'n json \<Rightarrow> bool" where
  "is_long_text (JStr t) = (length t > 5)"
| "is_long_text v = False"

definition has_long_text_field :: "'n json \<Rightarrow> bool" where
  "has_long_text_field data = list_ex (\<lambda>(key, v). is_long_text v) (fields_of data)"

fun is_text :: "'n json \<Rightarrow> bool" where
  "is_text (JStr t) = True"
| "is_text v = False"

text \<open>The text an event carries to the cache or to the network, and the sleeps of a trace.\<close>

fun event_text :: "event \<Rightarrow> pystr" where
  "event_text (CacheLookup q) = q"
| "event_text (CacheStore q r) = q"
| "event_text (NetRequest q) = q"
| "event_text (Sleep n) = []"

text \<open>
  \<open>extends_within n s s'\<close>: the trace of \<open>s'\<close> is the trace of \<open>s\<close> followed by events
  whose texts have at most \<open>n\<close> characters.
\<close>

definition extends_within :: "nat \<Rightarrow> state \<Rightarrow> state \<Rightarrow> bool" where
  "extends_within n s s' =
     (\<exists>evs. trace s' = trace s @ evs \<and> (\<forall>e \<in> set evs. length (event_text e) \<le> n))"

text \<open>
  What may follow the cache lookup of prompt \<open>p\<close> in the trace of one call: requests that
  carry \<open>p\<close> itself, stores under a text no longer than \<open>p\<close>, and sleeps; no second lookup.
\<close>

fun after_lookup :: "pystr \<Rightarrow> event \<Rightarrow> bool" where
  "after_lookup p (NetRequest q) = (q = p)"
| "after_lookup p (CacheStore q r) = (length q \<le> length p)"
| "after_lookup p (CacheLookup q) = False"
| "after_lookup p (Sleep d) = True"

section \<open>Surroundings for the examples\<close>

text \<open>
  The examples need some digest, some \<^verbatim>\<open>str\<close> and some endpoint. Which digest is used
  does not matter to them; they take the text itself.
\<close>

definition plain_digest :: "pystr \<Rightarrow> pystr" where
  "plain_digest d = d"

definition example_str :: "unit json \<Rightarrow> pystr" where
  "example_str v = text_of ''?''"

definition example_str_exn :: "py_exn \<Rightarrow> pystr" where
  "example_str_exn e = text_of ''?''"

definition example_env :: "(nat \<Rightarrow> pystr \<Rightarrow> int \<times> unit reply) \<Rightarrow> unit env" where
  "example_env endpoint =
     \<lparr>md5 = plain_digest, py_str = example_str, str_exn = example_str_exn, post = endpoint\<rparr>"

definition fresh_state :: state where
  "fresh_state = \<lparr>user_inputs = [], bot_responses = [], cache = Map.empty, clock = 0, trace = []\<rparr>"

text \<open>An endpoint that answers every request with status 429 after one second.\<close>

definition endpoint_429 :: "nat \<Rightarrow> pystr \<Rightarrow> int \<times> unit reply" where
  "endpoint_429 i inputs = (1, Responded 429 (Inl JSONDecodeError))"

text \<open>An endpoint that answers every request with status 200 and an empty generated text.\<close>

definition endpoint_empty :: "nat \<Rightarrow> pystr \<Rightarrow> int \<times> unit reply" where
  "endpoint_empty i inputs = (1, Responded 200 (Inr (JObj [(GENERATED_TEXT, JStr [])])))"

text \<open>
  An endpoint that rejects the first request with status 400 and answers every later one
  with status 200 and the generated text \<^verbatim>\<open>Hello there\<close>.
\<close>

definition endpoint_400_then_ok :: "nat \<Rightarrow> pystr \<Rightarrow> int \<times> unit reply" where
  "endpoint_400_then_ok i inputs =
     (if i = 0 then (1, Responded 400 (Inl JSONDecodeError))
      else (1, Responded 200 (Inr (JObj [(GENERATED_TEXT, JStr (text_of ''Hello there''))]))))"

text \<open>A prompt of 101 one-letter words separated by single spaces (201 characters).\<close>

definition hundred_and_one_words :: pystr where
  "hundred_and_one_words = concat (replicate 100 (text_of ''w '')) @ text_of ''w''"

section \<open>Properties of \<^verbatim>\<open>truncate_history\<close>\<close>

lemma drop_oldest_drop:
  "\<exists>k. drop_oldest t m ins outs = (drop k ins, drop k outs)"
proof (induction t m ins outs rule: drop_oldest.induct)
  case (1 t m i ins r outs)
  show ?case
  proof (cases "t > m")
    case True
    with 1 obtain k where "drop_oldest (t - (estimate_tokens i + estimate_tokens r)) m ins outs = (drop k ins, drop k outs)"
      by blast
    with True have "drop_oldest t m (i # ins) (r # outs) = (drop (Suc k) (i # ins), drop (Suc k) (r # outs))"
      by simp
    then show ?thesis by blast
  next
    case False
    then have "drop_oldest t m (i # ins) (r # outs) = (drop 0 (i # ins), drop 0 (r # outs))" by simp
    then show ?thesis by blast
  qed
qed (rule exI [of _ 0], simp)+

lemma truncate_history_drop:
  "\<exists>k. truncate_history ins outs m = (drop k ins, drop k outs)"
proof -
  obtain k where k: "drop_oldest (sum_list (map estimate_tokens (ins @ outs))) m ins outs = (drop k ins, drop k outs)"
    using drop_oldest_drop by blast
  have id: "(ins, outs) = (drop 0 ins, drop 0 outs)" by simp
  show ?thesis
    unfolding truncate_history_def Let_def
    using k id by (metis (full_types))
qed

lemma truncate_history_length:
  "length (fst (truncate_history ins outs m)) \<le> MAX_CONVERSATION_TURNS"
proof (cases "length ins > MAX_CONVERSATION_TURNS")
  case True
  then show ?thesis by (simp add: truncate_history_def Let_def)
next
  case False
  obtain k where "truncate_history ins outs m = (drop k ins, drop k outs)"
    using truncate_history_drop by blast
  with False show ?thesis by simp
qed

lemma drop_oldest_fixed:
  "t = sum_list (map estimate_tokens (ins @ outs)) \<Longrightarrow> drop_oldest t m ins outs = (i', o') \<Longrightarrow>
   (sum_list (map estimate_tokens (i' @ o')) \<le> m \<or> i' = [] \<or> o' = [])"
proof (induction t m ins outs rule: drop_oldest.induct)
  case (1 t m i ins r outs)
  then show ?case by (auto split: if_splits)
qed auto

lemma drop_oldest_empty: "i' = [] \<or> o' = [] \<Longrightarrow> drop_oldest t m i' o' = (i', o')"
  by (cases i'; cases o') auto

lemma truncate_history_fixed:
  assumes "length i' \<le> MAX_CONVERSATION_TURNS"
    and "sum_list (map estimate_tokens (i' @ o')) \<le> m \<or> i' = [] \<or> o' = []"
  shows "truncate_history i' o' m = (i', o')"
  using assms by (auto simp: truncate_history_def Let_def drop_oldest_empty)

text \<open>
  Claim C6. For every history, \<^verbatim>\<open>truncate_history\<close> returns what is left of the two lists
  after dropping the same number of oldest entries from the front of each: a contiguous
  suffix, in the original order, with nothing removed from the middle. The result holds at
  most \<^verbatim>\<open>MAX_CONVERSATION_TURNS\<close> inputs, and for a paired history (as many responses as
  inputs) as many responses as inputs, so at most that many pairs.
\<close>

theorem truncate_history_suffix_bounded:
  "(\<exists>k. truncate_history past_inputs past_responses max_tokens
          = (drop k past_inputs, drop k past_responses))
   \<and> suffix (fst (truncate_history past_inputs past_responses max_tokens)) past_inputs
   \<and> suffix (snd (truncate_history past_inputs past_responses max_tokens)) past_responses
   \<and> length (fst (truncate_history past_inputs past_responses max_tokens)) \<le> MAX_CONVERSATION_TURNS
   \<and> (length past_inputs = length past_responses \<longrightarrow>
        length (snd (truncate_history past_inputs past_responses max_tokens))
          = length (fst (truncate_history past_inputs past_responses max_tokens)))"
proof -
  obtain k where k: "truncate_history past_inputs past_responses max_tokens
          = (drop k past_inputs, drop k past_responses)"
    using truncate_history_drop by blast
  have "\<exists>k. truncate_history past_inputs past_responses max_tokens
          = (drop k past_inputs, drop k past_responses)"
    using k by blast
  moreover have "suffix (fst (truncate_history past_inputs past_responses max_tokens)) past_inputs"
    using k by (simp add: suffix_drop)
  moreover have "suffix (snd (truncate_history past_inputs past_responses max_tokens)) past_responses"
    using k by (simp add: suffix_drop)
  moreover note truncate_history_length [of past_inputs past_responses max_tokens]
  moreover have "length past_inputs = length past_responses \<longrightarrow>
        length (snd (truncate_history past_inputs past_responses max_tokens))
          = length (fst (truncate_history past_inputs past_responses max_tokens))"
    using k by simp
  ultimately show ?thesis by blast
qed

theorem truncate_history_suffix_bounded_witness:
  "length [text_of ''hi'', text_of ''bye''] = length [text_of ''hello'', text_of ''ciao'']
   \<and> truncate_history [text_of ''hi'', text_of ''bye''] [text_of ''hello'', text_of ''ciao''] 1
       = ([text_of ''bye''], [text_of ''ciao''])
   \<and> length (snd (truncate_history [text_of ''hi'', text_of ''bye''] [text_of ''hello'', text_of ''ciao''] 1))
       = length (fst (truncate_history [text_of ''hi'', text_of ''bye''] [text_of ''hello'', text_of ''ciao''] 1))"
proof -
  have a: "length [text_of ''hi'', text_of ''bye''] = length [text_of ''hello'', text_of ''ciao'']"
    by simp
  have v: "truncate_history [text_of ''hi'', text_of ''bye''] [text_of ''hello'', text_of ''ciao''] 1
       = ([text_of ''bye''], [text_of ''ciao''])"
    by (simp add: truncate_history_def MAX_CONVERSATION_TURNS_def estimate_tokens_def text_of_def)
  from truncate_history_suffix_bounded
         [of "[text_of ''hi'', text_of ''bye'']" "[text_of ''hello'', text_of ''ciao'']" 1] a
  have "length (snd (truncate_history [text_of ''hi'', text_of ''bye''] [text_of ''hello'', text_of ''ciao''] 1))
       = length (fst (truncate_history [text_of ''hi'', text_of ''bye''] [text_of ''hello'', text_of ''ciao''] 1))"
    by blast
  with a v show ?thesis by blast
qed

lemma estimate_400: "estimate_tokens (replicate 400 97) = 100"
  by (simp add: estimate_tokens_def)

lemma sum_list_replicate_int: "sum_list (replicate n (c::int)) = int n * c"
  by (induction n) (simp_all add: algebra_simps)

lemma eleven_turns_twice:
  assumes "estimate_tokens x = 100"
  shows "truncate_history (replicate 11 x) (replicate 11 x) 800 = (replicate 10 x, replicate 10 x)"
    and "truncate_history (replicate 10 x) (replicate 10 x) 800 = (replicate 4 x, replicate 4 x)"
proof -
  show "truncate_history (replicate 11 x) (replicate 11 x) 800 = (replicate 10 x, replicate 10 x)"
    by (simp add: truncate_history_def MAX_CONVERSATION_TURNS_def)
  have "sum_list (map estimate_tokens (replicate 10 x @ replicate 10 x)) = 2000"
    using assms by (simp add: eval_nat_numeral)
  then show "truncate_history (replicate 10 x) (replicate 10 x) 800 = (replicate 4 x, replicate 4 x)"
    using assms
    by (simp add: truncate_history_def MAX_CONVERSATION_TURNS_def) (simp add: eval_nat_numeral)
qed

text \<open>
  Claim C2, as stated, fails. A history of 11 pairs of 400-character texts costs 2200
  approximate tokens, over the budget of 800. The first application takes the turn-count
  branch, which returns the last 10 pairs (2000 tokens) without looking at the budget; the
  second application finds 10 pairs, looks at the budget and keeps 4.
\<close>

theorem truncate_history_not_idempotent:
  "sum_list (map estimate_tokens (replicate 11 (replicate 400 97) @ replicate 11 (replicate 400 97))) > 800
   \<and> truncate_history (replicate 11 (replicate 400 97)) (replicate 11 (replicate 400 97)) 800
       = (replicate 10 (replicate 400 97), replicate 10 (replicate 400 97))
   \<and> truncate_history (replicate 10 (replicate 400 97)) (replicate 10 (replicate 400 97)) 800
       = (replicate 4 (replicate 400 97), replicate 4 (replicate 400 97))
   \<and> truncate_history
       (fst (truncate_history (replicate 11 (replicate 400 97)) (replicate 11 (replicate 400 97)) 800))
       (snd (truncate_history (replicate 11 (replicate 400 97)) (replicate 11 (replicate 400 97)) 800))
       800
     \<noteq> truncate_history (replicate 11 (replicate 400 97)) (replicate 11 (replicate 400 97)) 800"
proof -
  have "sum_list (map estimate_tokens (replicate 11 (replicate 400 97) @ replicate 11 (replicate 400 97))) > 800"
    by (simp add: estimate_400 sum_list_replicate_int)
  then show ?thesis
    by (simp add: eleven_turns_twice [OF estimate_400])
qed

lemma truncate_history_idem_small:
  assumes "length past_inputs \<le> MAX_CONVERSATION_TURNS"
  shows "truncate_history
           (fst (truncate_history past_inputs past_responses max_tokens))
           (snd (truncate_history past_inputs past_responses max_tokens)) max_tokens
         = truncate_history past_inputs past_responses max_tokens"
proof -
  obtain i' o' where r: "truncate_history past_inputs past_responses max_tokens = (i', o')"
    by (cases "truncate_history past_inputs past_responses max_tokens")
  have len: "length i' \<le> MAX_CONVERSATION_TURNS"
    using truncate_history_length [of past_inputs past_responses max_tokens] r by simp
  have "sum_list (map estimate_tokens (i' @ o')) \<le> max_tokens \<or> i' = [] \<or> o' = []"
  proof (cases "sum_list (map estimate_tokens (past_inputs @ past_responses)) \<le> max_tokens")
    case True
    with assms r show ?thesis by (simp add: truncate_history_def Let_def)
  next
    case False
    with assms r have "drop_oldest (sum_list (map estimate_tokens (past_inputs @ past_responses)))
        max_tokens past_inputs past_responses = (i', o')"
      by (simp add: truncate_history_def Let_def)
    from drop_oldest_fixed [OF refl this] show ?thesis .
  qed
  with len have "truncate_history i' o' max_tokens = (i', o')"
    by (rule truncate_history_fixed)
  with r show ?thesis by simp
qed

lemma drop_oldest_length:
  "length (fst (drop_oldest t m ins outs)) \<le> length ins"
proof -
  obtain k where "drop_oldest t m ins outs = (drop k ins, drop k outs)"
    using drop_oldest_drop by blast
  then show ?thesis by simp
qed

lemma truncate_history_idem_large:
  assumes big: "length past_inputs > MAX_CONVERSATION_TURNS"
  shows "(truncate_history
           (fst (truncate_history past_inputs past_responses max_tokens))
           (snd (truncate_history past_inputs past_responses max_tokens)) max_tokens
          = truncate_history past_inputs past_responses max_tokens)
         \<longleftrightarrow>
         (sum_list (map estimate_tokens
             (drop (length past_inputs - MAX_CONVERSATION_TURNS) past_inputs
              @ drop (length past_inputs - MAX_CONVERSATION_TURNS) past_responses)) \<le> max_tokens
          \<or> drop (length past_inputs - MAX_CONVERSATION_TURNS) past_responses = [])"
proof -
  let ?i = "drop (length past_inputs - MAX_CONVERSATION_TURNS) past_inputs"
  let ?o = "drop (length past_inputs - MAX_CONVERSATION_TURNS) past_responses"
  have r: "truncate_history past_inputs past_responses max_tokens = (?i, ?o)"
    using big by (simp add: truncate_history_def Let_def)
  have len: "length ?i = MAX_CONVERSATION_TURNS" using big by simp
  show ?thesis
  proof (cases "sum_list (map estimate_tokens (?i @ ?o)) \<le> max_tokens \<or> ?o = []")
    case True
    then have "sum_list (map estimate_tokens (?i @ ?o)) \<le> max_tokens \<or> ?i = [] \<or> ?o = []" by blast
    with len have "truncate_history ?i ?o max_tokens = (?i, ?o)"
      by (intro truncate_history_fixed) simp_all
    with r True show ?thesis by simp
  next
    case False
    then have over: "sum_list (map estimate_tokens (?i @ ?o)) > max_tokens" and ne: "?o \<noteq> []"
      by auto
    from len have "?i \<noteq> []" by (auto simp: MAX_CONVERSATION_TURNS_def)
    then obtain x xs where i: "?i = x # xs" by (cases ?i) auto
    from ne obtain y ys where o: "?o = y # ys" by (cases ?o) auto
    have "truncate_history ?i ?o max_tokens
          = drop_oldest (sum_list (map estimate_tokens (?i @ ?o))) max_tokens ?i ?o"
      using len over by (simp add: truncate_history_def Let_def)
    also have "\<dots> = drop_oldest (sum_list (map estimate_tokens (?i @ ?o))
                         - (estimate_tokens x + estimate_tokens y)) max_tokens xs ys"
      using over by (simp only: i o drop_oldest.simps(1) if_True)
    finally have "length (fst (truncate_history ?i ?o max_tokens)) \<le> length xs"
      by (simp only: drop_oldest_length)
    also have "length xs < length ?i" by (simp only: i) simp
    finally have "truncate_history ?i ?o max_tokens \<noteq> (?i, ?o)" by auto
    with r False show ?thesis by simp
  qed
qed


lemma estimate_100: "estimate_tokens (replicate 100 97) = 25"
  by (simp add: estimate_tokens_def)

text \<open>
  Claim C2, amended. For every history whose total approximate token cost exceeds
  \<^verbatim>\<open>max_tokens\<close>, applying \<^verbatim>\<open>truncate_history\<close> to its own output yields that same output,
  unless the history has more than \<^verbatim>\<open>MAX_CONVERSATION_TURNS\<close> inputs and the entries the turn
  cap keeps (the last \<^verbatim>\<open>MAX_CONVERSATION_TURNS\<close> inputs and the responses from the same
  index on) still cost more than \<^verbatim>\<open>max_tokens\<close>; then, if any response is kept, the second
  application drops more. The statement is an equivalence: it gives exactly the histories
  for which the second application changes nothing.
\<close>

theorem truncate_history_idempotent_unless_kept_over_budget:
  assumes "sum_list (map estimate_tokens (past_inputs @ past_responses)) > max_tokens"
  shows "(truncate_history
            (fst (truncate_history past_inputs past_responses max_tokens))
            (snd (truncate_history past_inputs past_responses max_tokens)) max_tokens
          = truncate_history past_inputs past_responses max_tokens)
         \<longleftrightarrow>
         (length past_inputs \<le> MAX_CONVERSATION_TURNS
          \<or> sum_list (map estimate_tokens
                (drop (length past_inputs - MAX_CONVERSATION_TURNS) past_inputs
                 @ drop (length past_inputs - MAX_CONVERSATION_TURNS) past_responses)) \<le> max_tokens
          \<or> drop (length past_inputs - MAX_CONVERSATION_TURNS) past_responses = [])"
proof (cases "length past_inputs \<le> MAX_CONVERSATION_TURNS")
  case True
  with truncate_history_idem_small [OF True, of past_responses max_tokens] show ?thesis
    by blast
next
  case False
  then have "length past_inputs > MAX_CONVERSATION_TURNS" by simp
  from truncate_history_idem_large [OF this, of past_responses max_tokens] False
  show ?thesis by blast
qed

theorem truncate_history_idempotent_unless_kept_over_budget_witness:
  "sum_list (map estimate_tokens
       (replicate 20 (replicate 100 97) @ replicate 20 (replicate 100 97))) > 800
   \<and> sum_list (map estimate_tokens
         (drop (length (replicate 20 (replicate 100 (97::nat))) - MAX_CONVERSATION_TURNS)
            (replicate 20 (replicate 100 97))
          @ drop (length (replicate 20 (replicate 100 (97::nat))) - MAX_CONVERSATION_TURNS)
            (replicate 20 (replicate 100 97)))) \<le> 800
   \<and> truncate_history (replicate 20 (replicate 100 97)) (replicate 20 (replicate 100 97)) 800
       = (replicate 10 (replicate 100 97), replicate 10 (replicate 100 97))
   \<and> truncate_history
         (fst (truncate_history (replicate 20 (replicate 100 97)) (replicate 20 (replicate 100 97)) 800))
         (snd (truncate_history (replicate 20 (replicate 100 97)) (replicate 20 (replicate 100 97)) 800))
         800
       = truncate_history (replicate 20 (replicate 100 97)) (replicate 20 (replicate 100 97)) 800"
proof -
  let ?h = "replicate 20 (replicate 100 (97::nat))"
  have a: "sum_list (map estimate_tokens (?h @ ?h)) > 800"
    by (simp add: estimate_100 sum_list_replicate_int)
  have c: "sum_list (map estimate_tokens
         (drop (length ?h - MAX_CONVERSATION_TURNS) ?h
          @ drop (length ?h - MAX_CONVERSATION_TURNS) ?h)) \<le> 800"
    by (simp add: MAX_CONVERSATION_TURNS_def estimate_100 sum_list_replicate_int)
  have v: "truncate_history ?h ?h 800
           = (replicate 10 (replicate 100 97), replicate 10 (replicate 100 97))"
    by (simp add: truncate_history_def MAX_CONVERSATION_TURNS_def)
  from truncate_history_idempotent_unless_kept_over_budget [OF a] c
  have "truncate_history (fst (truncate_history ?h ?h 800)) (snd (truncate_history ?h ?h 800)) 800
        = truncate_history ?h ?h 800"
    by blast
  with a c v show ?thesis by blast
qed

section \<open>Properties of the cache\<close>

text \<open>
  Claim C4, as stated, fails. The text made of the single code point \<^verbatim>\<open>U+D800\<close> cannot be
  encoded, so \<^verbatim>\<open>compute_hash\<close> raises inside both methods: \<^verbatim>\<open>cache_response\<close> logs and
  writes nothing, \<^verbatim>\<open>get_cached_response\<close> logs and returns \<^verbatim>\<open>None\<close>. A lookup right after
  the store, with no time elapsed, does not return the stored response.
\<close>

theorem cache_round_trip_fails_on_surrogate:
  "(0::int) - 0 < CACHE_EXPIRY
   \<and> fst (get_cached_response plain_digest
            (cache_response plain_digest Map.empty 0 [55296] (text_of ''ok'')) 0 [55296]) = None"
  by (simp add: get_cached_response_def cache_response_def compute_hash_def utf8_ok_def CACHE_EXPIRY_def)

text \<open>
  Claim C4, amended. For every prompt text and every response that can be encoded as UTF-8
  (no surrogate code point), a store followed by a lookup with the same prompt text returns
  the stored response, provided the time elapsed since the store is less than
  \<^verbatim>\<open>CACHE_EXPIRY\<close>. This holds whatever the digest and whatever the table held before.
\<close>

theorem cache_round_trip:
  assumes "utf8_ok query_text" and "utf8_ok response"
    and "lookup_time - store_time < CACHE_EXPIRY"
  shows "fst (get_cached_response digest (cache_response digest db store_time query_text response)
                lookup_time query_text) = Some response"
  using assms by (simp add: get_cached_response_def cache_response_def compute_hash_def)

theorem cache_round_trip_witness:
  "utf8_ok (text_of ''hi'') \<and> utf8_ok (text_of ''Hello there'') \<and> (1003599::int) - 1000000 < CACHE_EXPIRY
   \<and> fst (get_cached_response plain_digest
            (cache_response plain_digest Map.empty 1000000 (text_of ''hi'') (text_of ''Hello there''))
            1003599 (text_of ''hi'')) = Some (text_of ''Hello there'')"
proof -
  have a: "utf8_ok (text_of ''hi'')" by (simp add: utf8_ok_def text_of_def)
  have b: "utf8_ok (text_of ''Hello there'')" by (simp add: utf8_ok_def text_of_def)
  have c: "(1003599::int) - 1000000 < CACHE_EXPIRY" by (simp add: CACHE_EXPIRY_def)
  from cache_round_trip [OF a b c] a b c show ?thesis by blast
qed

text \<open>
  Claim C5. When the table holds a row under the hash of a prompt text, a lookup of that
  text returns the row's response exactly when \<^verbatim>\<open>now - stored_at < CACHE_EXPIRY\<close>, and
  \<^verbatim>\<open>None\<close> otherwise; in both cases the table comes back unchanged. In particular, once
  \<^verbatim>\<open>now - stored_at >= CACHE_EXPIRY\<close> the lookup returns \<^verbatim>\<open>None\<close> and the row is still there.
\<close>

theorem expired_entry_is_absent_but_kept:
  assumes "compute_hash digest query_text = Inr query_hash"
    and "db query_hash = Some (response, stored_at)"
  shows "get_cached_response digest db now query_text
           = (if now - stored_at < CACHE_EXPIRY then Some response else None, db)
         \<and> (CACHE_EXPIRY \<le> now - stored_at \<longrightarrow>
               fst (get_cached_response digest db now query_text) = None
               \<and> snd (get_cached_response digest db now query_text) query_hash
                     = Some (response, stored_at))"
  using assms by (simp add: get_cached_response_def)

theorem expired_entry_is_absent_but_kept_witness:
  "compute_hash plain_digest (text_of ''hi'') = Inr (text_of ''hi'')
   \<and> (Map.empty(text_of ''hi'' \<mapsto> (text_of ''Hello there'', 1000000::int))) (text_of ''hi'')
        = Some (text_of ''Hello there'', 1000000)
   \<and> CACHE_EXPIRY \<le> 1003600 - 1000000
   \<and> fst (get_cached_response plain_digest
             (Map.empty(text_of ''hi'' \<mapsto> (text_of ''Hello there'', 1000000))) 1003600 (text_of ''hi'')) = None
   \<and> snd (get_cached_response plain_digest
             (Map.empty(text_of ''hi'' \<mapsto> (text_of ''Hello there'', 1000000))) 1003600 (text_of ''hi''))
          (text_of ''hi'') = Some (text_of ''Hello there'', 1000000)"
proof -
  have a: "compute_hash plain_digest (text_of ''hi'') = Inr (text_of ''hi'')"
    by (simp add: compute_hash_def utf8_ok_def text_of_def plain_digest_def)
  have b: "(Map.empty(text_of ''hi'' \<mapsto> (text_of ''Hello there'', 1000000::int))) (text_of ''hi'')
        = Some (text_of ''Hello there'', 1000000)"
    by simp
  have c: "CACHE_EXPIRY \<le> 1003600 - 1000000" by (simp add: CACHE_EXPIRY_def)
  from expired_entry_is_absent_but_kept
         [where db = "Map.empty(text_of ''hi'' \<mapsto> (text_of ''Hello there'', 1000000))"
            and now = 1003600, OF a b] a b c
  show ?thesis by blast
qed

section \<open>Properties of \<^verbatim>\<open>_extract_response\<close>\<close>

lemma scan_items_none:
  "\<not> list_ex (\<lambda>(key, v). is_long_text v) items \<Longrightarrow> scan_items items = None"
proof (induction items)
  case Nil
  then show ?case by simp
next
  case (Cons kv items)
  obtain key v where kv: "kv = (key, v)" by (cases kv)
  with Cons show ?case by (cases v) auto
qed

lemma extract_response_returns: "\<exists>t. extract_response to_str data = Inr t"
  by (simp add: extract_response_def split: sum.split option.split)

lemma extract_try_raises_marker:
  "extract_try to_str data = Inl e \<Longrightarrow> extract_response to_str data = Inr MSG_UNEXPECTED_FORMAT"
  by (simp add: extract_response_def)

lemma no_match_falls_through:
  assumes "\<not> recognized_shape data" and "\<not> has_long_text_field data"
  shows "extract_try to_str data = Inr None"
proof (cases data)
  case (JObj items)
  with assms show ?thesis
    by (simp add: extract_try_def from_dict_def from_list_def scan_dict_def scan_list_def
        has_long_text_field_def scan_items_none)
next
  case (JArr elems)
  show ?thesis
  proof (cases elems)
    case Nil
    with JArr show ?thesis
      by (simp add: extract_try_def from_dict_def from_list_def scan_dict_def scan_list_def)
  next
    case (Cons first rest)
    with JArr assms show ?thesis
      by (cases first)
        (simp_all add: extract_try_def from_dict_def from_list_def scan_dict_def scan_list_def
          has_long_text_field_def scan_items_none)
  qed
qed (simp_all add: extract_try_def from_dict_def from_list_def scan_dict_def scan_list_def)

lemma non_text_generated_raises:
  assumes "map_of items GENERATED_TEXT = Some v" and "\<not> is_text v"
  shows "extract_try to_str (JObj items) = Inl AttributeError"
  using assms by (cases v) (simp_all add: extract_try_def from_dict_def strip_value_def)

text \<open>
  Claim C7. For every decoded value, \<^verbatim>\<open>_extract_response\<close> returns a text and raises
  nothing. It returns the marker \<^verbatim>\<open>MSG_UNEXPECTED_FORMAT\<close> when no recognised shape matches
  and no top-level field holds a text longer than 5 characters, and whenever the \<^verbatim>\<open>try\<close>
  block raises; the block does raise, with \<^verbatim>\<open>AttributeError\<close>, on a dict whose
  \<^verbatim>\<open>generated_text\<close> field holds a value that is not a text.
\<close>

theorem extract_response_never_raises:
  "(\<exists>t. extract_response to_str data = Inr t)
   \<and> (\<not> recognized_shape data \<and> \<not> has_long_text_field data \<longrightarrow>
        extract_response to_str data = Inr MSG_UNEXPECTED_FORMAT)
   \<and> (\<forall>e. extract_try to_str data = Inl e \<longrightarrow>
        extract_response to_str data = Inr MSG_UNEXPECTED_FORMAT)
   \<and> (\<forall>items v. data = JObj items \<and> map_of items GENERATED_TEXT = Some v \<and> \<not> is_text v \<longrightarrow>
        extract_try to_str data = Inl AttributeError)"
proof -
  have "\<not> recognized_shape data \<and> \<not> has_long_text_field data \<longrightarrow>
        extract_response to_str data = Inr MSG_UNEXPECTED_FORMAT"
    by (simp add: extract_response_def no_match_falls_through)
  then show ?thesis
    using extract_response_returns [of to_str data] extract_try_raises_marker [of to_str data]
      non_text_generated_raises [of _ _ to_str]
    by blast
qed


theorem extract_response_never_raises_witness:
  "\<not> recognized_shape (JObj [(text_of ''status'', JNum ()), (text_of ''note'', JStr (text_of ''short''))])
   \<and> \<not> has_long_text_field (JObj [(text_of ''status'', JNum ()), (text_of ''note'', JStr (text_of ''short''))])
   \<and> extract_response example_str
         (JObj [(text_of ''status'', JNum ()), (text_of ''note'', JStr (text_of ''short''))])
       = Inr MSG_UNEXPECTED_FORMAT
   \<and> map_of [(text_of ''generated_text'', JNum ()), (text_of ''detail'', JStr (text_of ''a long text''))]
         GENERATED_TEXT = Some (JNum ())
   \<and> \<not> is_text (JNum ())
   \<and> extract_try example_str
         (JObj [(text_of ''generated_text'', JNum ()), (text_of ''detail'', JStr (text_of ''a long text''))])
       = Inl AttributeError
   \<and> extract_response example_str
         (JObj [(text_of ''generated_text'', JNum ()), (text_of ''detail'', JStr (text_of ''a long text''))])
       = Inr MSG_UNEXPECTED_FORMAT"
proof -
  let ?d1 = "JObj [(text_of ''status'', JNum ()), (text_of ''note'', JStr (text_of ''short''))]"
  let ?d2 = "JObj [(text_of ''generated_text'', JNum ()), (text_of ''detail'', JStr (text_of ''a long text''))]"
  have a: "\<not> recognized_shape ?d1"
    by (simp add: GENERATED_TEXT_def ERROR_FIELD_def text_of_def)
  have b: "\<not> has_long_text_field ?d1"
    by (simp add: has_long_text_field_def text_of_def)
  have c: "map_of [(text_of ''generated_text'', JNum ()), (text_of ''detail'', JStr (text_of ''a long text''))]
         GENERATED_TEXT = Some (JNum ())"
    by (simp add: GENERATED_TEXT_def)
  have d: "\<not> is_text (JNum ())" by simp
  from extract_response_never_raises [of example_str ?d1] a b
  have r1: "extract_response example_str ?d1 = Inr MSG_UNEXPECTED_FORMAT" by blast
  from extract_response_never_raises [of example_str ?d2] c d
  have r2: "extract_try example_str ?d2 = Inl AttributeError" by blast
  from extract_response_never_raises [of example_str ?d2] r2
  have r3: "extract_response example_str ?d2 = Inr MSG_UNEXPECTED_FORMAT" by blast
  from a b c d r1 r2 r3 show ?thesis by blast
qed

section \<open>Properties of \<^verbatim>\<open>add_message\<close>\<close>

lemma strip_all_space: "list_all isspace s \<Longrightarrow> strip s = []"
  by (auto simp: strip_def list_all_iff dest: set_dropWhileD)

text \<open>
  Claim C8. For every input that is empty or consists of whitespace only, \<^verbatim>\<open>add_message\<close>
  returns the validation message and leaves the state as it was: nothing is appended to
  the trace (no cache lookup, no cache store, no network request), and the cache table and
  the conversation are untouched.
\<close>

theorem blank_input_is_rejected_at_once:
  assumes "user_input = [] \<or> list_all isspace user_input"
  shows "add_message env user_input s = (MSG_INVALID_INPUT, s)
         \<and> trace (snd (add_message env user_input s)) = trace s
         \<and> cache (snd (add_message env user_input s)) = cache s"
  using assms by (auto simp: add_message_def strip_all_space)

theorem blank_input_is_rejected_at_once_witness:
  "list_all isspace [32, 9, 160, 10]
   \<and> add_message (example_env endpoint_empty) [32, 9, 160, 10] fresh_state = (MSG_INVALID_INPUT, fresh_state)
   \<and> trace (snd (add_message (example_env endpoint_empty) [32, 9, 160, 10] fresh_state)) = []"
proof -
  have a: "list_all isspace [32, 9, 160, 10]" by (simp add: isspace_def)
  then have "[32, 9, 160, 10] = ([]::pystr) \<or> list_all isspace [32, 9, 160, 10]" by blast
  from blank_input_is_rejected_at_once [OF this, of "example_env endpoint_empty" fresh_state] a
  show ?thesis by (simp add: fresh_state_def)
qed

section \<open>Properties of \<^verbatim>\<open>query\<close>\<close>

lemma attempts_list: "[1..<MAX_RETRIES + 1] = [1, 2, 3]"
  by (simp add: MAX_RETRIES_def upt_conv_Cons)

lemma requests_made_append:
  "requests_made (tr @ [NetRequest q]) = Suc (requests_made tr)"
  "requests_made (tr @ [Sleep n]) = requests_made tr"
  "requests_made (tr @ [CacheLookup q]) = requests_made tr"
  "requests_made (tr @ [CacheStore q r]) = requests_made tr"
  by (simp_all add: requests_made_def)

lemma lookup_cache_state:
  "snd (lookup_cache env q s) = s\<lparr>trace := trace s @ [CacheLookup q]\<rparr>"
  by (simp add: lookup_cache_def get_cached_response_def split: sum.split option.split prod.split)

lemma query_loop_429:
  assumes "post env (requests_made (trace s)) inputs = (took, Responded 429 body)"
  shows "query_loop env inputs (attempt # rest) prompt s
         = query_loop env inputs rest prompt
             (sleep (2 ^ attempt) (s\<lparr>clock := clock s + took, trace := trace s @ [NetRequest inputs]\<rparr>))"
  using assms by (simp add: attempt_try_def send_def handle_exn_def)


lemma query_miss:
  assumes "fst (lookup_cache env (truncate_text prompt0 MAX_INPUT_LENGTH) s) = None
           \<or> fst (lookup_cache env (truncate_text prompt0 MAX_INPUT_LENGTH) s) = Some []"
  shows "query env prompt0 s
         = query_loop env (truncate_text prompt0 MAX_INPUT_LENGTH) [1, 2, 3]
             (truncate_text prompt0 MAX_INPUT_LENGTH)
             (s\<lparr>trace := trace s @ [CacheLookup (truncate_text prompt0 MAX_INPUT_LENGTH)]\<rparr>)"
proof -
  let ?p = "truncate_text prompt0 MAX_INPUT_LENGTH"
  obtain c s1 where l: "lookup_cache env ?p s = (c, s1)" by (cases "lookup_cache env ?p s")
  with lookup_cache_state [of env ?p s] have s1: "s1 = s\<lparr>trace := trace s @ [CacheLookup ?p]\<rparr>" by simp
  from assms l have "c = None \<or> c = Some []" by simp
  with l s1 show ?thesis
    unfolding query_def Let_def attempts_list by (auto simp del: query_loop.simps)
qed

lemma fresh_lookup_misses:
  "fst (lookup_cache env q fresh_state) = None"
  by (simp add: lookup_cache_def get_cached_response_def fresh_state_def split: sum.split)

text \<open>
  Claim C1, as stated, fails. With status 429 on every attempt and an empty cache,
  \<^verbatim>\<open>query\<close> makes three requests, leaves the loop and returns the text of the \<^verbatim>\<open>return\<close>
  after the loop: \<^verbatim>\<open>MSG_NO_RESPONSE\<close>, which says that no response could be obtained after
  several attempts. That is the generic exhaustion message; the program has no message
  about the rate limit.
\<close>

theorem all_429_returns_generic_message:
  "snd (endpoint_429 0 (text_of ''hi'')) = Responded 429 (Inl JSONDecodeError)
   \<and> snd (endpoint_429 1 (text_of ''hi'')) = Responded 429 (Inl JSONDecodeError)
   \<and> snd (endpoint_429 2 (text_of ''hi'')) = Responded 429 (Inl JSONDecodeError)
   \<and> fst (query (example_env endpoint_429) (text_of ''hi'') fresh_state) = MSG_NO_RESPONSE
   \<and> requests_made (trace (snd (query (example_env endpoint_429) (text_of ''hi'') fresh_state))) = 3"
proof -
  let ?env = "example_env endpoint_429"
  let ?hi = "text_of ''hi''"
  have p: "truncate_text ?hi MAX_INPUT_LENGTH = ?hi"
    by (simp add: truncate_text_def text_of_def MAX_INPUT_LENGTH_def)
  have r: "\<And>n. post ?env n ?hi = (1, Responded 429 (Inl JSONDecodeError))"
    by (simp add: example_env_def endpoint_429_def)
  let ?s0 = "fresh_state\<lparr>trace := trace fresh_state @ [CacheLookup ?hi]\<rparr>"
  let ?s1 = "sleep (2 ^ 1) (?s0\<lparr>clock := clock ?s0 + 1, trace := trace ?s0 @ [NetRequest ?hi]\<rparr>)"
  let ?s2 = "sleep (2 ^ 2) (?s1\<lparr>clock := clock ?s1 + 1, trace := trace ?s1 @ [NetRequest ?hi]\<rparr>)"
  let ?s3 = "sleep (2 ^ 3) (?s2\<lparr>clock := clock ?s2 + 1, trace := trace ?s2 @ [NetRequest ?hi]\<rparr>)"
  have "fst (lookup_cache ?env (truncate_text ?hi MAX_INPUT_LENGTH) fresh_state) = None
        \<or> fst (lookup_cache ?env (truncate_text ?hi MAX_INPUT_LENGTH) fresh_state) = Some []"
    by (simp add: fresh_lookup_misses)
  then have "query ?env ?hi fresh_state
             = query_loop ?env (truncate_text ?hi MAX_INPUT_LENGTH) [1, 2, 3]
                 (truncate_text ?hi MAX_INPUT_LENGTH)
                 (fresh_state\<lparr>trace := trace fresh_state
                    @ [CacheLookup (truncate_text ?hi MAX_INPUT_LENGTH)]\<rparr>)"
    by (rule query_miss)
  then have "query ?env ?hi fresh_state = query_loop ?env ?hi [1, 2, 3] ?hi ?s0"
    by (simp only: p)
  also have "\<dots> = query_loop ?env ?hi [2, 3] ?hi ?s1"
    by (simp only: query_loop_429 [OF r])
  also have "\<dots> = query_loop ?env ?hi [3] ?hi ?s2"
    by (simp only: query_loop_429 [OF r])
  also have "\<dots> = query_loop ?env ?hi [] ?hi ?s3"
    by (simp only: query_loop_429 [OF r])
  also have "\<dots> = (MSG_NO_RESPONSE, ?s3)" by simp
  finally have q: "query ?env ?hi fresh_state = (MSG_NO_RESPONSE, ?s3)" .
  have "?s3 = \<lparr>user_inputs = [], bot_responses = [], cache = Map.empty, clock = 17,
           trace = [CacheLookup ?hi, NetRequest ?hi, Sleep 2, NetRequest ?hi, Sleep 4,
                    NetRequest ?hi, Sleep 8]\<rparr>"
    by (simp add: sleep_def fresh_state_def)
  with q show ?thesis by (simp add: endpoint_429_def requests_made_def)
qed

text \<open>
  Claim C1, amended. If the cache lookup misses and each of the three network attempts of a
  call gets status 429, \<^verbatim>\<open>query\<close> returns the generic exhaustion message
  \<^verbatim>\<open>MSG_NO_RESPONSE\<close> and makes exactly three requests, all with the truncated prompt; the
  delays between the attempts are \<^verbatim>\<open>2 ** attempt\<close> seconds, 2 after the first attempt and 4
  after the second, strictly increasing. What follows the third attempt is left open, except
  that no further request is made.
\<close>

theorem all_429_exhausts_three_attempts:
  assumes miss: "fst (lookup_cache env (truncate_text prompt0 MAX_INPUT_LENGTH) s) = None
                 \<or> fst (lookup_cache env (truncate_text prompt0 MAX_INPUT_LENGTH) s) = Some []"
    and all_429: "\<forall>i < 3. \<exists>took body.
                    post env (requests_made (trace s) + i) (truncate_text prompt0 MAX_INPUT_LENGTH)
                      = (took, Responded 429 body)"
  shows "fst (query env prompt0 s) = MSG_NO_RESPONSE
         \<and> requests_made (trace (snd (query env prompt0 s))) = requests_made (trace s) + 3
         \<and> (\<exists>rest. trace (snd (query env prompt0 s))
                     = trace s @ [CacheLookup (truncate_text prompt0 MAX_INPUT_LENGTH),
                                  NetRequest (truncate_text prompt0 MAX_INPUT_LENGTH), Sleep (2 ^ 1),
                                  NetRequest (truncate_text prompt0 MAX_INPUT_LENGTH), Sleep (2 ^ 2),
                                  NetRequest (truncate_text prompt0 MAX_INPUT_LENGTH)] @ rest)
         \<and> sorted_wrt (<) [2 ^ 1, (2::int) ^ 2]"
proof -
  let ?p = "truncate_text prompt0 MAX_INPUT_LENGTH"
  let ?n = "requests_made (trace s)"
  from all_429 obtain t0 b0 where r0: "post env ?n ?p = (t0, Responded 429 b0)"
    by (metis add_0_right zero_less_numeral)
  from all_429 obtain t1 b1 where r1: "post env (Suc ?n) ?p = (t1, Responded 429 b1)"
    by (metis add_Suc_right add_0_right numeral_3_eq_3 One_nat_def lessI less_SucI)
  from all_429 obtain t2 b2 where r2: "post env (Suc (Suc ?n)) ?p = (t2, Responded 429 b2)"
    by (metis add_Suc_right add_0_right numeral_3_eq_3 lessI)
  let ?s0 = "s\<lparr>trace := trace s @ [CacheLookup ?p]\<rparr>"
  let ?s1 = "sleep (2 ^ 1) (?s0\<lparr>clock := clock ?s0 + t0, trace := trace ?s0 @ [NetRequest ?p]\<rparr>)"
  let ?s2 = "sleep (2 ^ 2) (?s1\<lparr>clock := clock ?s1 + t1, trace := trace ?s1 @ [NetRequest ?p]\<rparr>)"
  let ?s3 = "sleep (2 ^ 3) (?s2\<lparr>clock := clock ?s2 + t2, trace := trace ?s2 @ [NetRequest ?p]\<rparr>)"
  have n0: "requests_made (trace ?s0) = ?n" by (simp add: requests_made_def)
  have n1: "requests_made (trace ?s1) = Suc ?n" by (simp add: sleep_def requests_made_def)
  have n2: "requests_made (trace ?s2) = Suc (Suc ?n)" by (simp add: sleep_def requests_made_def)
  have "query env prompt0 s = query_loop env ?p [1, 2, 3] ?p ?s0"
    using miss by (rule query_miss)
  also have "\<dots> = query_loop env ?p [2, 3] ?p ?s1"
    using r0 n0 by (simp only: query_loop_429)
  also have "\<dots> = query_loop env ?p [3] ?p ?s2"
    using r1 n1 by (simp only: query_loop_429)
  also have "\<dots> = query_loop env ?p [] ?p ?s3"
    using r2 n2 by (simp only: query_loop_429)
  also have "\<dots> = (MSG_NO_RESPONSE, ?s3)" by simp
  finally have q: "query env prompt0 s = (MSG_NO_RESPONSE, ?s3)" .
  have tr: "trace ?s3 = trace s @ [CacheLookup ?p, NetRequest ?p, Sleep (2 ^ 1), NetRequest ?p,
              Sleep (2 ^ 2), NetRequest ?p] @ [Sleep (2 ^ 3)]"
    by (simp add: sleep_def)
  have n3: "requests_made (trace ?s3) = ?n + 3"
    unfolding tr by (simp add: requests_made_def)
  have f: "fst (query env prompt0 s) = MSG_NO_RESPONSE" by (simp only: q fst_conv)
  have r: "requests_made (trace (snd (query env prompt0 s))) = ?n + 3"
    by (simp only: q snd_conv n3)
  have "trace (snd (query env prompt0 s))
          = trace s @ [CacheLookup ?p, NetRequest ?p, Sleep (2 ^ 1), NetRequest ?p,
              Sleep (2 ^ 2), NetRequest ?p] @ [Sleep (2 ^ 3)]"
    by (simp only: q snd_conv tr)
  then have e: "\<exists>rest. trace (snd (query env prompt0 s))
          = trace s @ [CacheLookup ?p, NetRequest ?p, Sleep (2 ^ 1), NetRequest ?p,
              Sleep (2 ^ 2), NetRequest ?p] @ rest"
    by blast
  have "sorted_wrt (<) [2 ^ 1, (2::int) ^ 2]" by simp
  with f r e show ?thesis by blast
qed


theorem all_429_exhausts_three_attempts_witness:
  "fst (lookup_cache (example_env endpoint_429) (truncate_text (text_of ''hi'') MAX_INPUT_LENGTH) fresh_state) = None
   \<and> post (example_env endpoint_429) (requests_made (trace fresh_state) + 0)
         (truncate_text (text_of ''hi'') MAX_INPUT_LENGTH) = (1, Responded 429 (Inl JSONDecodeError))
   \<and> post (example_env endpoint_429) (requests_made (trace fresh_state) + 1)
         (truncate_text (text_of ''hi'') MAX_INPUT_LENGTH) = (1, Responded 429 (Inl JSONDecodeError))
   \<and> post (example_env endpoint_429) (requests_made (trace fresh_state) + 2)
         (truncate_text (text_of ''hi'') MAX_INPUT_LENGTH) = (1, Responded 429 (Inl JSONDecodeError))
   \<and> fst (query (example_env endpoint_429) (text_of ''hi'') fresh_state) = MSG_NO_RESPONSE
   \<and> requests_made (trace (snd (query (example_env endpoint_429) (text_of ''hi'') fresh_state))) = 3"
proof -
  let ?p = "truncate_text (text_of ''hi'') MAX_INPUT_LENGTH"
  have a: "fst (lookup_cache (example_env endpoint_429) ?p fresh_state) = None"
    by (rule fresh_lookup_misses)
  then have a': "fst (lookup_cache (example_env endpoint_429) ?p fresh_state) = None
       \<or> fst (lookup_cache (example_env endpoint_429) ?p fresh_state) = Some []" by blast
  have b: "\<forall>i < 3. \<exists>took body.
         post (example_env endpoint_429) (requests_made (trace fresh_state) + i) ?p
           = (took, Responded 429 body)"
    by (simp add: example_env_def endpoint_429_def)
  have n: "requests_made (trace fresh_state) = 0"
    by (simp add: fresh_state_def requests_made_def)
  note t = all_429_exhausts_three_attempts [OF a' b]
  from t have c1: "fst (query (example_env endpoint_429) (text_of ''hi'') fresh_state) = MSG_NO_RESPONSE"
    by blast
  from t have "requests_made (trace (snd (query (example_env endpoint_429) (text_of ''hi'') fresh_state)))
               = requests_made (trace fresh_state) + 3"
    by blast
  with n have c2: "requests_made (trace (snd (query (example_env endpoint_429) (text_of ''hi'') fresh_state))) = 3"
    by linarith
  have e: "\<And>i. post (example_env endpoint_429) (requests_made (trace fresh_state) + i) ?p
             = (1, Responded 429 (Inl JSONDecodeError))"
    by (simp add: example_env_def endpoint_429_def)
  from a e [of 0] e [of 1] e [of 2] c1 c2 show ?thesis by blast
qed

lemma query_loop_400:
  assumes "post env (requests_made (trace s)) inputs = (took, Responded 400 body)"
    and "attempt < MAX_RETRIES"
  shows "query_loop env inputs (attempt # rest) prompt s
         = query_loop env inputs rest (salvage prompt)
             (s\<lparr>clock := clock s + took, trace := trace s @ [NetRequest inputs]\<rparr>)"
  using assms by (simp add: attempt_try_def send_def)

lemma query_loop_text:
  assumes "post env (requests_made (trace s)) inputs = (took, Responded status_code (Inr data))"
    and "\<not> (400 \<le> status_code \<and> status_code < 600)"
    and "extract_response (py_str env) data = Inr result"
    and "2 \<le> length result"
  shows "query_loop env inputs (attempt # rest) prompt s
         = (result, store_cache env prompt result
                      (s\<lparr>clock := clock s + took, trace := trace s @ [NetRequest inputs]\<rparr>))"
proof -
  from assms(2) have "status_code \<noteq> 400" by auto
  moreover from assms(4) have "result \<noteq> []" by auto
  ultimately show ?thesis
    using assms by (auto simp: attempt_try_def send_def)
qed

lemma split_words:
  "split_from [] (concat (replicate n (text_of ''w '')) @ text_of ''w'') = replicate (Suc n) (text_of ''w'')"
  by (induction n) (simp_all add: text_of_def isspace_def)

lemma length_join_words:
  "length (join (text_of '' '') (replicate (Suc n) (text_of ''w''))) = 2 * n + 1"
  by (induction n) (simp_all add: text_of_def)

lemma salvage_words:
  "salvage hundred_and_one_words = join (text_of '' '') (replicate 100 (text_of ''w''))"
proof -
  have "split hundred_and_one_words = replicate 101 (text_of ''w'')"
    by (simp add: split_def hundred_and_one_words_def split_words)
  then show ?thesis by (simp add: salvage_def)
qed

lemma length_words: "length hundred_and_one_words = 201"
  by (simp add: hundred_and_one_words_def length_concat text_of_def sum_list_replicate)

lemma salvage_words_shorter: "length (salvage hundred_and_one_words) = 199"
  using length_join_words [of 99] by (simp add: salvage_words)


lemma query_400_then_text:
  assumes miss: "fst (lookup_cache env (truncate_text prompt0 MAX_INPUT_LENGTH) s) = None
                 \<or> fst (lookup_cache env (truncate_text prompt0 MAX_INPUT_LENGTH) s) = Some []"
    and r0: "post env (requests_made (trace s)) (truncate_text prompt0 MAX_INPUT_LENGTH)
               = (t0, Responded 400 b0)"
    and r1: "post env (Suc (requests_made (trace s))) (truncate_text prompt0 MAX_INPUT_LENGTH)
               = (t1, Responded status_code (Inr data))"
    and ok: "\<not> (400 \<le> status_code \<and> status_code < 600)"
    and ex: "extract_response (py_str env) data = Inr result"
    and len: "2 \<le> length result"
  shows "query env prompt0 s
         = (result,
            store_cache env (salvage (truncate_text prompt0 MAX_INPUT_LENGTH)) result
              (s\<lparr>clock := clock s + t0 + t1,
                 trace := trace s @ [CacheLookup (truncate_text prompt0 MAX_INPUT_LENGTH),
                                     NetRequest (truncate_text prompt0 MAX_INPUT_LENGTH),
                                     NetRequest (truncate_text prompt0 MAX_INPUT_LENGTH)]\<rparr>))"
proof -
  let ?p = "truncate_text prompt0 MAX_INPUT_LENGTH"
  let ?s0 = "s\<lparr>trace := trace s @ [CacheLookup ?p]\<rparr>"
  let ?s1 = "?s0\<lparr>clock := clock ?s0 + t0, trace := trace ?s0 @ [NetRequest ?p]\<rparr>"
  let ?s2 = "?s1\<lparr>clock := clock ?s1 + t1, trace := trace ?s1 @ [NetRequest ?p]\<rparr>"
  have n0: "requests_made (trace ?s0) = requests_made (trace s)" by (simp add: requests_made_def)
  have n1: "requests_made (trace ?s1) = Suc (requests_made (trace s))" by (simp add: requests_made_def)
  have a1: "(1::nat) < MAX_RETRIES" by (simp add: MAX_RETRIES_def)
  have r0': "post env (requests_made (trace ?s0)) ?p = (t0, Responded 400 b0)"
    using r0 by (simp only: n0)
  have r1': "post env (requests_made (trace ?s1)) ?p = (t1, Responded status_code (Inr data))"
    using r1 by (simp only: n1)
  have "query env prompt0 s = query_loop env ?p [1, 2, 3] ?p ?s0"
    using miss by (rule query_miss)
  also have "\<dots> = query_loop env ?p [2, 3] (salvage ?p) ?s1"
    by (rule query_loop_400 [OF r0' a1])
  also have "\<dots> = (result, store_cache env (salvage ?p) result ?s2)"
    by (rule query_loop_text [OF r1' ok ex len])
  finally show ?thesis by simp
qed

lemma extract_hello:
  "extract_response to_str (JObj [(GENERATED_TEXT, JStr (text_of ''Hello there''))])
   = Inr (text_of ''Hello there'')"
  by (simp add: extract_response_def extract_try_def from_dict_def strip_value_def strip_def
      text_of_def isspace_def)

text \<open>
  Claim C3 holds of what the retry is meant to do, and the code misses it. The prompt
  below has 101 words; the first request gets status 400, the second status 200 with the
  generated text \<^verbatim>\<open>Hello there\<close>. \<^verbatim>\<open>query\<close> returns that text and stores it under the
  salvaged prompt (the last 100 words), but both requests carry the original 101-word
  prompt: \<^verbatim>\<open>payload\<close> is built once before the loop and the 400 branch only reassigns the
  local variable \<^verbatim>\<open>prompt\<close>. The key of the cache entry is a text that was never sent.
\<close>

theorem retry_after_400_resends_original_prompt:
  "length (split hundred_and_one_words) = 101
   \<and> snd (endpoint_400_then_ok 0 hundred_and_one_words) = Responded 400 (Inl JSONDecodeError)
   \<and> snd (endpoint_400_then_ok 1 hundred_and_one_words)
       = Responded 200 (Inr (JObj [(GENERATED_TEXT, JStr (text_of ''Hello there''))]))
   \<and> fst (query (example_env endpoint_400_then_ok) hundred_and_one_words fresh_state)
       = text_of ''Hello there''
   \<and> trace (snd (query (example_env endpoint_400_then_ok) hundred_and_one_words fresh_state))
       = [CacheLookup hundred_and_one_words,
          NetRequest hundred_and_one_words,
          NetRequest hundred_and_one_words,
          CacheStore (join (text_of '' '') (replicate 100 (text_of ''w''))) (text_of ''Hello there'')]
   \<and> join (text_of '' '') (replicate 100 (text_of ''w'')) \<noteq> hundred_and_one_words"
proof -
  let ?env = "example_env endpoint_400_then_ok"
  let ?h = hundred_and_one_words
  have p: "truncate_text ?h MAX_INPUT_LENGTH = ?h"
    by (simp add: truncate_text_def length_words MAX_INPUT_LENGTH_def)
  have w: "length (split ?h) = 101"
    by (simp add: split_def hundred_and_one_words_def split_words)
  have miss: "fst (lookup_cache ?env (truncate_text ?h MAX_INPUT_LENGTH) fresh_state) = None
              \<or> fst (lookup_cache ?env (truncate_text ?h MAX_INPUT_LENGTH) fresh_state) = Some []"
    by (simp add: fresh_lookup_misses)
  have n: "requests_made (trace fresh_state) = 0"
    by (simp add: fresh_state_def requests_made_def)
  have r0: "post ?env (requests_made (trace fresh_state)) (truncate_text ?h MAX_INPUT_LENGTH)
            = (1, Responded 400 (Inl JSONDecodeError))"
    by (simp add: n example_env_def endpoint_400_then_ok_def)
  have r1: "post ?env (Suc (requests_made (trace fresh_state))) (truncate_text ?h MAX_INPUT_LENGTH)
            = (1, Responded 200 (Inr (JObj [(GENERATED_TEXT, JStr (text_of ''Hello there''))])))"
    by (simp add: n example_env_def endpoint_400_then_ok_def)
  have ok: "\<not> (400 \<le> (200::nat) \<and> (200::nat) < 600)" by simp
  have len: "2 \<le> length (text_of ''Hello there'')" by (simp add: text_of_def)
  note q = query_400_then_text [OF miss r0 r1 ok extract_hello len]
  have f: "fst (query ?env ?h fresh_state) = text_of ''Hello there''"
    by (simp only: q fst_conv)
  have t: "trace (snd (query ?env ?h fresh_state))
       = [CacheLookup ?h, NetRequest ?h, NetRequest ?h,
          CacheStore (join (text_of '' '') (replicate 100 (text_of ''w''))) (text_of ''Hello there'')]"
    unfolding q by (simp add: p store_cache_def salvage_words fresh_state_def)
  have d: "join (text_of '' '') (replicate 100 (text_of ''w'')) \<noteq> ?h"
    using salvage_words_shorter length_words by (auto simp: salvage_words)
  from w f t d show ?thesis by (simp add: endpoint_400_then_ok_def)
qed
















lemma extends_within_refl: "extends_within n s s"
  by (simp add: extends_within_def)

lemma extends_within_trans:
  "extends_within n s s1 \<Longrightarrow> extends_within n s1 s2 \<Longrightarrow> extends_within n s s2"
  by (fastforce simp: extends_within_def)

lemma split_from_size:
  "sum_list (map (\<lambda>w. Suc (length w)) (split_from word cs)) \<le> Suc (length word + length cs)"
proof (induction cs arbitrary: word)
  case Nil
  then show ?case by simp
next
  case (Cons a cs)
  from Cons.IH [of "[]"] Cons.IH [of "word @ [a]"] show ?case by auto
qed

lemma join_size:
  "ws \<noteq> [] \<Longrightarrow> Suc (length (join [c] ws)) \<le> sum_list (map (\<lambda>w. Suc (length w)) ws)"
  by (induction "[c]" ws rule: join.induct) auto

lemma drop_size:
  "sum_list (map (\<lambda>w. Suc (length w)) (drop k ws)) \<le> sum_list (map (\<lambda>w. Suc (length (w::pystr))) ws)"
proof -
  have "sum_list (map (\<lambda>w. Suc (length w)) (take k ws @ drop k ws))
        = sum_list (map (\<lambda>w. Suc (length w)) (take k ws)) + sum_list (map (\<lambda>w. Suc (length w)) (drop k ws))"
    by (simp only: map_append sum_list_append)
  then show ?thesis by simp
qed

lemma salvage_length: "length (salvage prompt) \<le> length prompt"
proof (cases "length (split prompt) > 100")
  case True
  let ?ws = "drop (length (split prompt) - 100) (split prompt)"
  from True have "?ws \<noteq> []" by simp
  then have "Suc (length (join (text_of '' '') ?ws)) \<le> sum_list (map (\<lambda>w. Suc (length w)) ?ws)"
    using join_size [of ?ws 32] by (simp add: text_of_def)
  also have "\<dots> \<le> sum_list (map (\<lambda>w. Suc (length w)) (split prompt))" by (rule drop_size)
  also have "\<dots> \<le> Suc (length prompt)"
    using split_from_size [of "[]" prompt] by (simp add: split_def)
  finally show ?thesis using True by (simp add: salvage_def Let_def)
next
  case False
  then show ?thesis by (simp add: salvage_def Let_def)
qed

lemma attempt_try_within:
  assumes "length inputs \<le> n" and "length prompt \<le> n"
    and "attempt_try env inputs attempt prompt s = (fl, s1)"
  shows "extends_within n s s1 \<and> (\<forall>prompt1. fl = Continue prompt1 \<longrightarrow> length prompt1 \<le> n)"
  using assms salvage_length [of prompt]
  by (auto simp: attempt_try_def send_def sleep_def store_cache_def extends_within_def
      split: prod.splits reply.splits sum.splits if_splits)

lemma handle_exn_within:
  assumes "handle_exn env attempt e s = (r, s2)"
  shows "extends_within n s s2"
  using assms
  by (auto simp: handle_exn_def sleep_def extends_within_def split: py_exn.splits if_splits)

lemma query_loop_within:
  assumes "length inputs \<le> n" and "length prompt \<le> n"
  shows "extends_within n s (snd (query_loop env inputs attempts prompt s))"
  using assms(2)
proof (induction attempts arbitrary: prompt s)
  case Nil
  then show ?case by (simp add: extends_within_refl)
next
  case (Cons attempt rest)
  obtain fl s1 where a: "attempt_try env inputs attempt prompt s = (fl, s1)"
    by (cases "attempt_try env inputs attempt prompt s")
  note w = attempt_try_within [OF assms(1) Cons.prems a]
  show ?case
  proof (cases fl)
    case (Return result)
    with a w show ?thesis by simp
  next
    case (Continue prompt1)
    with w have "length prompt1 \<le> n" by blast
    from Cons.IH [OF this] have "extends_within n s1 (snd (query_loop env inputs rest prompt1 s1))" .
    with w have "extends_within n s (snd (query_loop env inputs rest prompt1 s1))"
      by (blast intro: extends_within_trans)
    with a Continue show ?thesis by simp
  next
    case (Raise e)
    obtain r s2 where h: "handle_exn env attempt e s1 = (r, s2)"
      by (cases "handle_exn env attempt e s1")
    from w handle_exn_within [OF h] have s2: "extends_within n s s2"
      by (blast intro: extends_within_trans)
    show ?thesis
    proof (cases r)
      case None
      from Cons.IH [OF Cons.prems] have "extends_within n s2 (snd (query_loop env inputs rest prompt s2))" .
      with s2 have "extends_within n s (snd (query_loop env inputs rest prompt s2))"
        by (blast intro: extends_within_trans)
      with a Raise h None show ?thesis by simp
    next
      case (Some message)
      with a Raise h s2 show ?thesis by simp
    qed
  qed
qed

lemma truncate_text_length: "length (truncate_text text n) \<le> n"
  by (simp add: truncate_text_def)

lemma truncate_text_take: "truncate_text (take n text) n = truncate_text text n"
  by (simp add: truncate_text_def)

lemma query_within:
  "extends_within MAX_INPUT_LENGTH s (snd (query env prompt0 s))"
proof -
  let ?p = "truncate_text prompt0 MAX_INPUT_LENGTH"
  let ?s0 = "s\<lparr>trace := trace s @ [CacheLookup ?p]\<rparr>"
  have p: "length ?p \<le> MAX_INPUT_LENGTH" by (rule truncate_text_length)
  then have e0: "extends_within MAX_INPUT_LENGTH s ?s0" by (simp add: extends_within_def)
  obtain c s1 where l: "lookup_cache env ?p s = (c, s1)" by (cases "lookup_cache env ?p s")
  with lookup_cache_state [of env ?p s] have s1: "s1 = ?s0" by simp
  have loop: "extends_within MAX_INPUT_LENGTH s (snd (query_loop env ?p [1..<MAX_RETRIES + 1] ?p ?s0))"
    using e0 query_loop_within [OF p p] by (blast intro: extends_within_trans)
  show ?thesis
  proof (cases "\<exists>r. c = Some r \<and> r \<noteq> []")
    case True
    with l s1 e0 show ?thesis by (auto simp: query_def Let_def simp del: query_loop.simps)
  next
    case False
    with l s1 loop show ?thesis
      by (cases c) (auto simp: query_def Let_def simp del: query_loop.simps upt_Suc)
  qed
qed

lemma build_user_query_length:
  "length (build_user_query truncated_inputs truncated_responses user_input) \<le> length user_input + 201"
  by (auto simp: build_user_query_def Let_def last_n_def text_of_def split: prod.splits if_splits)


lemma truncate_text_is_take: "truncate_text text n = take n text"
  by (simp add: truncate_text_def)

lemma attempt_try_events:
  assumes "length prompt \<le> length inputs"
    and "attempt_try env inputs attempt prompt s = (fl, s1)"
  shows "(\<exists>more. trace s1 = trace s @ NetRequest inputs # more
                \<and> (\<forall>e \<in> set more. after_lookup inputs e))
         \<and> (\<forall>prompt1. fl = Continue prompt1 \<longrightarrow> length prompt1 \<le> length inputs)"
  using assms salvage_length [of prompt]
  by (auto simp: attempt_try_def send_def sleep_def store_cache_def
      split: prod.splits reply.splits sum.splits if_splits)

lemma handle_exn_events:
  assumes "handle_exn env attempt e s = (r, s2)"
  shows "\<exists>evs. trace s2 = trace s @ evs \<and> (\<forall>e \<in> set evs. after_lookup inputs e)"
  using assms
  by (auto simp: handle_exn_def sleep_def split: py_exn.splits if_splits)

lemma query_loop_events:
  assumes "length prompt \<le> length inputs"
  shows "\<exists>evs. trace (snd (query_loop env inputs attempts prompt s)) = trace s @ evs
               \<and> (\<forall>e \<in> set evs. after_lookup inputs e)
               \<and> (attempts \<noteq> [] \<longrightarrow> (\<exists>more. evs = NetRequest inputs # more))"
  using assms
proof (induction attempts arbitrary: prompt s)
  case Nil
  then show ?case by simp
next
  case (Cons attempt rest)
  obtain fl s1 where a: "attempt_try env inputs attempt prompt s = (fl, s1)"
    by (cases "attempt_try env inputs attempt prompt s")
  from attempt_try_events [OF Cons.prems a] obtain more where
    m: "trace s1 = trace s @ NetRequest inputs # more" "\<forall>e \<in> set more. after_lookup inputs e"
    and c: "\<forall>prompt1. fl = Continue prompt1 \<longrightarrow> length prompt1 \<le> length inputs"
    by blast
  have step: "\<exists>evs. trace s' = trace s @ evs \<and> (\<forall>e \<in> set evs. after_lookup inputs e)
               \<and> (\<exists>more. evs = NetRequest inputs # more)"
    if "trace s' = trace s1 @ evs'" and "\<forall>e \<in> set evs'. after_lookup inputs e" for s' evs'
  proof -
    from that m have "trace s' = trace s @ NetRequest inputs # (more @ evs')" by simp
    moreover from that m have "\<forall>e \<in> set (NetRequest inputs # (more @ evs')). after_lookup inputs e"
      by auto
    ultimately show ?thesis by blast
  qed
  show ?case
  proof (cases fl)
    case (Return result)
    from step [of s1 "[]"] a Return show ?thesis by simp
  next
    case (Continue prompt1)
    with c have "length prompt1 \<le> length inputs" by blast
    from Cons.IH [OF this, of s1] obtain evs' where
      "trace (snd (query_loop env inputs rest prompt1 s1)) = trace s1 @ evs'"
      "\<forall>e \<in> set evs'. after_lookup inputs e"
      by blast
    from step [OF this] a Continue show ?thesis by simp
  next
    case (Raise e)
    obtain r s2 where h: "handle_exn env attempt e s1 = (r, s2)"
      by (cases "handle_exn env attempt e s1")
    from handle_exn_events [OF h, of inputs] obtain evs1 where
      h1: "trace s2 = trace s1 @ evs1" "\<forall>e \<in> set evs1. after_lookup inputs e"
      by blast
    show ?thesis
    proof (cases r)
      case None
      from Cons.IH [OF Cons.prems, of s2] obtain evs2 where
        "trace (snd (query_loop env inputs rest prompt s2)) = trace s2 @ evs2"
        "\<forall>e \<in> set evs2. after_lookup inputs e"
        by blast
      with h1 have "trace (snd (query_loop env inputs rest prompt s2)) = trace s1 @ (evs1 @ evs2)"
        "\<forall>e \<in> set (evs1 @ evs2). after_lookup inputs e"
        by auto
      from step [OF this] a Raise h None show ?thesis by simp
    next
      case (Some message)
      from step [OF h1] a Raise h Some show ?thesis by simp
    qed
  qed
qed

lemma query_events:
  "\<exists>rest. trace (snd (query env prompt0 s))
            = trace s @ CacheLookup (take MAX_INPUT_LENGTH prompt0) # rest
          \<and> (\<forall>e \<in> set rest. after_lookup (take MAX_INPUT_LENGTH prompt0) e)
          \<and> (fst (lookup_cache env (take MAX_INPUT_LENGTH prompt0) s) = None
               \<or> fst (lookup_cache env (take MAX_INPUT_LENGTH prompt0) s) = Some [] \<longrightarrow>
             (\<exists>more. rest = NetRequest (take MAX_INPUT_LENGTH prompt0) # more))
          \<and> (\<forall>r. fst (lookup_cache env (take MAX_INPUT_LENGTH prompt0) s) = Some r \<and> r \<noteq> [] \<longrightarrow>
                rest = [] \<and> fst (query env prompt0 s) = r)"
proof -
  let ?p = "take MAX_INPUT_LENGTH prompt0"
  let ?s0 = "s\<lparr>trace := trace s @ [CacheLookup ?p]\<rparr>"
  have p: "truncate_text prompt0 MAX_INPUT_LENGTH = ?p" by (rule truncate_text_is_take)
  obtain c s1 where l: "lookup_cache env ?p s = (c, s1)" by (cases "lookup_cache env ?p s")
  with lookup_cache_state [of env ?p s] have s1: "s1 = ?s0" by simp
  show ?thesis
  proof (cases "\<exists>r. c = Some r \<and> r \<noteq> []")
    case True
    then obtain r where r: "c = Some r" "r \<noteq> []" by blast
    with l s1 have "query env prompt0 s = (r, ?s0)"
      by (simp add: query_def Let_def p del: query_loop.simps)
    with l r show ?thesis by simp
  next
    case False
    then have miss: "c = None \<or> c = Some []" by (cases c) auto
    with l s1 have q: "query env prompt0 s = query_loop env ?p [1, 2, 3] ?p ?s0"
      using query_miss [of env prompt0 s] by (simp add: p)
    from query_loop_events [of ?p ?p env "[1, 2, 3]" ?s0] obtain more where
      "trace (snd (query_loop env ?p [1, 2, 3] ?p ?s0)) = trace ?s0 @ NetRequest ?p # more"
      "\<forall>e \<in> set (NetRequest ?p # more). after_lookup ?p e"
      by auto
    with q have "trace (snd (query env prompt0 s)) = trace s @ CacheLookup ?p # NetRequest ?p # more"
      "\<forall>e \<in> set (NetRequest ?p # more). after_lookup ?p e"
      by simp_all
    with l False show ?thesis by auto
  qed
qed


text \<open>
  Claim C10. Whatever prompt \<^verbatim>\<open>query\<close> is given, the first thing it does is look up the
  cache with the first \<^verbatim>\<open>MAX_INPUT_LENGTH\<close> (512) characters of the prompt, and every request
  of the call carries exactly those characters; a miss is followed by such a request, a hit
  by nothing, and a store goes under a text that is no longer. Hence every text looked up,
  sent or stored under has at most \<^verbatim>\<open>MAX_INPUT_LENGTH\<close> characters, and the whole call
  (result, cache, trace) is the same as for the first \<^verbatim>\<open>MAX_INPUT_LENGTH\<close> characters of the
  prompt: what lies past them has no influence. The prompt that \<^verbatim>\<open>add_message\<close> assembles
  from an input of at most 512 characters has at most 713 characters.
\<close>

theorem prompt_sent_and_hashed_within_limit:
  "(\<exists>rest. trace (snd (query env prompt0 s))
             = trace s @ CacheLookup (take MAX_INPUT_LENGTH prompt0) # rest
           \<and> (\<forall>e \<in> set rest. after_lookup (take MAX_INPUT_LENGTH prompt0) e)
           \<and> (fst (lookup_cache env (take MAX_INPUT_LENGTH prompt0) s) = None
                \<or> fst (lookup_cache env (take MAX_INPUT_LENGTH prompt0) s) = Some [] \<longrightarrow>
              (\<exists>more. rest = NetRequest (take MAX_INPUT_LENGTH prompt0) # more))
           \<and> (\<forall>r. fst (lookup_cache env (take MAX_INPUT_LENGTH prompt0) s) = Some r \<and> r \<noteq> [] \<longrightarrow>
                 rest = [] \<and> fst (query env prompt0 s) = r))
   \<and> (\<exists>evs. trace (snd (query env prompt0 s)) = trace s @ evs
           \<and> (\<forall>e \<in> set evs. length (event_text e) \<le> MAX_INPUT_LENGTH))
   \<and> query env prompt0 s = query env (take MAX_INPUT_LENGTH prompt0) s
   \<and> (length user_input \<le> MAX_INPUT_LENGTH \<longrightarrow>
        length (build_user_query truncated_inputs truncated_responses user_input) \<le> 713)"
proof -
  have a: "\<exists>evs. trace (snd (query env prompt0 s)) = trace s @ evs
           \<and> (\<forall>e \<in> set evs. length (event_text e) \<le> MAX_INPUT_LENGTH)"
    using query_within [of s env prompt0] by (simp only: extends_within_def)
  have b: "query env prompt0 s = query env (take MAX_INPUT_LENGTH prompt0) s"
    by (simp only: query_def truncate_text_take)
  have c: "length user_input \<le> MAX_INPUT_LENGTH \<longrightarrow>
        length (build_user_query truncated_inputs truncated_responses user_input) \<le> 713"
    using build_user_query_length [of truncated_inputs truncated_responses user_input]
    by (simp add: MAX_INPUT_LENGTH_def)
  from query_events [of env prompt0 s] a b c show ?thesis by blast
qed

theorem prompt_sent_and_hashed_within_limit_witness:
  "length (replicate 512 (99::nat)) \<le> MAX_INPUT_LENGTH
   \<and> length (build_user_query [replicate 150 97] [replicate 150 98] (replicate 512 99)) \<le> 713
   \<and> length (build_user_query [replicate 150 97] [replicate 150 98] (replicate 512 99)) = 713
   \<and> fst (lookup_cache (example_env endpoint_429) (take MAX_INPUT_LENGTH (replicate 600 97)) fresh_state)
       = None
   \<and> query (example_env endpoint_429) (replicate 600 97) fresh_state
       = query (example_env endpoint_429) (replicate 512 97) fresh_state
   \<and> take 2 (trace (snd (query (example_env endpoint_429) (replicate 600 97) fresh_state)))
       = [CacheLookup (replicate 512 97), NetRequest (replicate 512 97)]
   \<and> list_all (\<lambda>e. length (event_text e) \<le> MAX_INPUT_LENGTH)
         (trace (snd (query (example_env endpoint_429) (replicate 600 97) fresh_state)))"
proof -
  let ?env = "example_env endpoint_429"
  let ?q = "query ?env (replicate 600 97) fresh_state"
  note t = prompt_sent_and_hashed_within_limit
             [of ?env "replicate 600 97" fresh_state "replicate 512 99"
                 "[replicate 150 97]" "[replicate 150 98]"]
  have a: "length (replicate 512 (99::nat)) \<le> MAX_INPUT_LENGTH"
    by (simp add: MAX_INPUT_LENGTH_def)
  with t have b: "length (build_user_query [replicate 150 97] [replicate 150 98] (replicate 512 99)) \<le> 713"
    by blast
  have c: "length (build_user_query [replicate 150 97] [replicate 150 98] (replicate 512 99)) = 713"
    by (simp add: build_user_query_def Let_def last_n_def text_of_def)
  have p: "take MAX_INPUT_LENGTH (replicate 600 (97::nat)) = replicate 512 97"
    by (simp add: MAX_INPUT_LENGTH_def)
  have m: "fst (lookup_cache ?env (take MAX_INPUT_LENGTH (replicate 600 97)) fresh_state) = None"
    by (rule fresh_lookup_misses)
  from t have "?q = query ?env (take MAX_INPUT_LENGTH (replicate 600 97)) fresh_state" by blast
  then have d: "?q = query ?env (replicate 512 97) fresh_state" by (simp only: p)
  from t m obtain more where
    "trace (snd ?q) = trace fresh_state
       @ CacheLookup (take MAX_INPUT_LENGTH (replicate 600 97))
         # NetRequest (take MAX_INPUT_LENGTH (replicate 600 97)) # more"
    by blast
  then have "trace (snd ?q) = trace fresh_state
       @ CacheLookup (replicate 512 97) # NetRequest (replicate 512 97) # more"
    by (simp only: p)
  then have f: "take 2 (trace (snd ?q)) = [CacheLookup (replicate 512 97), NetRequest (replicate 512 97)]"
    by (simp add: fresh_state_def)
  from t obtain evs where
    "trace (snd ?q) = trace fresh_state @ evs"
    and "\<forall>e \<in> set evs. length (event_text e) \<le> MAX_INPUT_LENGTH"
    by blast
  then have e: "list_all (\<lambda>e. length (event_text e) \<le> MAX_INPUT_LENGTH) (trace (snd ?q))"
    by (simp add: fresh_state_def list_all_iff)
  from a b c m d f e show ?thesis by blast
qed

end
